theory Spec2Isabelle
  imports Main "HOL-Library.Word" "HOL-Library.Sublist"
begin

text \<open>
  A shallow embedding of the CCIP-Read gateway of \<open>rbrick/go-ccip-read\<close>: the
  signature parser (\<open>ParseFunction\<close>, \<open>parseParameters\<close> and the pattern
  \<open>FunctionRegex\<close>), the resolver with its options and its registry (\<open>Handle\<close>), the
  lookup of bound parameters (\<open>Var\<close>) and the request pipeline (\<open>ServeHTTP\<close>). The
  definitions come first, in the order of the source; the properties follow.
\<close>

section \<open>Strings, bytes and results\<close>

text \<open>
  Go strings are byte sequences; they are modelled as \<open>string\<close> (a list of 8-bit
  characters). A function of the source either returns a value, returns an error value,
  or panics (a run-time crash that unwinds through every caller).
\<close>

type_synonym byte = "8 word"

datatype error =
    ErrInvalidFunctionSignature \<comment> \<open>\<open>errors.New("invalid function signature")\<close>\<close>
  | InvalidParameterFormat string \<comment> \<open>\<open>"invalid parameter format: %s"\<close>\<close>
  | InvalidParameterType string \<comment> \<open>\<open>"invalid parameter type: %s"\<close>\<close>
  | FailedInput error \<comment> \<open>\<open>"failed to parse input parameters: %w"\<close>\<close>
  | FailedOutput error \<comment> \<open>\<open>"failed to parse output parameters: %w"\<close>\<close>

datatype 'a result = Ok 'a | Err error | Panic

subsection \<open>Character classes\<close>

definition lower_letters :: string where
  "lower_letters = ''abcdefghijklmnopqrstuvwxyz''"

definition upper_letters :: string where
  "upper_letters = ''ABCDEFGHIJKLMNOPQRSTUVWXYZ''"

definition digits :: string where
  "digits = ''0123456789''"

text \<open>The regular expression's \<open>\s\<close> is \<open>[\t\n\f\r ]\<close>.\<close>

definition re_space :: "char \<Rightarrow> bool" where
  "re_space c = (c = CHR 0x09 \<or> c = CHR 0x0A \<or> c = CHR 0x0C \<or> c = CHR 0x0D \<or> c = CHR '' '')"

text \<open>\<open>[a-zA-Z]\<close>\<close>

definition re_letter :: "char \<Rightarrow> bool" where
  "re_letter c = (c \<in> set (lower_letters @ upper_letters))"

text \<open>\<open>[a-zA-Z0-9\_]\<close>\<close>

definition re_word :: "char \<Rightarrow> bool" where
  "re_word c = (c \<in> set (lower_letters @ upper_letters @ digits @ ''_''))"

text \<open>\<open>[a-zA-Z0-9\s\,]\<close>\<close>

definition re_param :: "char \<Rightarrow> bool" where
  "re_param c = (c \<in> set (lower_letters @ upper_letters @ digits @ '','') \<or> re_space c)"

text \<open>
  \<open>unicode.IsSpace\<close> on a single byte below \<open>0x80\<close>: tab, line feed, vertical tab,
  form feed, carriage return and space. The strings that reach \<open>strings.TrimSpace\<close> and
  \<open>strings.Fields\<close> in this program are captures of \<open>[a-zA-Z0-9\s\,]*\<close>
  (\<open>parseParameters\<close> is not exported, and \<open>ParseFunction\<close> is its only caller), so
  they hold no byte from \<open>0x80\<close> on (\<open>captures_ascii\<close>), and on such strings the
  functions below return what Go's return. On a string with a byte from \<open>0x80\<close> on they
  are not Go's functions, which decode runes and also treat U+0085, U+00A0 and the other
  Unicode spaces as blanks. The theorems about the parser below are therefore stated for
  the lists captured from a signature; the lemmas about the loop that lead to them are
  facts of the functions defined here.
\<close>

definition isSpace :: "char \<Rightarrow> bool" where
  "isSpace c = (c = CHR 0x09 \<or> c = CHR 0x0A \<or> c = CHR 0x0B \<or> c = CHR 0x0C \<or> c = CHR 0x0D
                \<or> c = CHR '' '')"

subsection \<open>\<open>strings.Split\<close>, \<open>strings.TrimSpace\<close>, \<open>strings.Fields\<close>\<close>

text \<open>\<open>split_from sep cur s\<close>: the pieces of \<open>s\<close> between separators, \<open>cur\<close> being the
  piece read so far. The empty string splits into one empty piece, as in Go.\<close>

fun split_from :: "char \<Rightarrow> string \<Rightarrow> string \<Rightarrow> string list" where
  "split_from sep cur [] = [cur]"
| "split_from sep cur (c # cs) =
     (if c = sep then cur # split_from sep [] cs else split_from sep (cur @ [c]) cs)"

definition Split :: "string \<Rightarrow> char \<Rightarrow> string list" where
  "Split s sep = split_from sep [] s"

definition TrimSpace :: "string \<Rightarrow> string" where
  "TrimSpace s = rev (dropWhile isSpace (rev (dropWhile isSpace s)))"

fun fields_from :: "string \<Rightarrow> string \<Rightarrow> string list" where
  "fields_from cur [] = (if cur = [] then [] else [cur])"
| "fields_from cur (c # cs) =
     (if isSpace c then (if cur = [] then fields_from [] cs else cur # fields_from [] cs)
      else fields_from (cur @ [c]) cs)"

definition Fields :: "string \<Rightarrow> string list" where
  "Fields s = fields_from [] s"

text \<open>Go's \<open>s[lo:hi]\<close> on a string: a panic unless \<open>lo \<le> hi \<le> len(s)\<close>.\<close>

definition slice :: "string \<Rightarrow> nat \<Rightarrow> nat \<Rightarrow> string option" where
  "slice s lo hi = (if length s < hi \<or> hi < lo then None else Some (take (hi - lo) (drop lo s)))"

section \<open>The signature parser\<close>

subsection \<open>\<open>FunctionRegex\<close>\<close>

text \<open>
  The pattern is
  \<^verbatim>\<open>function\s+(?<functionName>[a-zA-Z]{1}[a-zA-Z0-9\_]+)\s*\((?<input>[a-zA-Z0-9\s\,]*)\)\s+(?<mutability>pure|view)\s*returns\s+\((?<output>[a-zA-Z0-9\s\,]*)\)\<close>
  and it is not anchored: \<open>MatchString\<close> and \<open>FindStringSubmatch\<close> look for the leftmost
  match anywhere in the string. Every repetition in it is greedy and is followed by a
  character outside the repeated class, so a match that starts at a given position is
  unique: each repetition takes the longest run of its class. (That the functions below
  accept exactly the words of the pattern, with these captures, is \<open>match_here_iff\<close>;
  that the search returns the leftmost match is \<open>FindStringSubmatch_leftmost\<close>.)

  \<open>strip_prefix p s\<close> is the rest of \<open>s\<close> after the literal \<open>p\<close>.
\<close>

fun strip_prefix :: "string \<Rightarrow> string \<Rightarrow> string option" where
  "strip_prefix [] s = Some s"
| "strip_prefix (p # ps) [] = None"
| "strip_prefix (p # ps) (c # cs) = (if p = c then strip_prefix ps cs else None)"

text \<open>\<open>\s+\<close>: at least one blank, then the rest.\<close>

definition blanks1 :: "string \<Rightarrow> string option" where
  "blanks1 s = (if takeWhile re_space s = [] then None else Some (dropWhile re_space s))"

text \<open>\<open>(pure|view)\<close>, the first alternative first.\<close>

definition mutability_at :: "string \<Rightarrow> (string \<times> string) option" where
  "mutability_at s =
     (case strip_prefix ''pure'' s of
        Some r \<Rightarrow> Some (''pure'', r)
      | None \<Rightarrow> (case strip_prefix ''view'' s of Some r \<Rightarrow> Some (''view'', r) | None \<Rightarrow> None))"

text \<open>\<open>\((?<g>[a-zA-Z0-9\s\,]*)\)\<close>: the capture and the rest after the closing parenthesis.\<close>

definition param_group :: "string \<Rightarrow> (string \<times> string) option" where
  "param_group s =
     (case s of
        [] \<Rightarrow> None
      | c # r \<Rightarrow>
          if c = CHR ''('' then
            (case dropWhile re_param r of
               [] \<Rightarrow> None
             | d # r' \<Rightarrow> if d = CHR '')'' then Some (takeWhile re_param r, r') else None)
          else None)"

text \<open>\<open>[a-zA-Z]{1}[a-zA-Z0-9\_]+\<close>: a letter, then one or more word characters.\<close>

definition name_at :: "string \<Rightarrow> (string \<times> string) option" where
  "name_at s =
     (case s of
        [] \<Rightarrow> None
      | c # r \<Rightarrow>
          if re_letter c \<and> takeWhile re_word r \<noteq> []
          then Some (c # takeWhile re_word r, dropWhile re_word r) else None)"

text \<open>The match that starts at the head of the string: the captures
  \<open>(functionName, input, mutability, output)\<close>.\<close>

definition match_here :: "string \<Rightarrow> (string \<times> string \<times> string \<times> string) option" where
  "match_here s =
     (case strip_prefix ''function'' s of None \<Rightarrow> None | Some s1 \<Rightarrow>
     (case blanks1 s1 of None \<Rightarrow> None | Some s2 \<Rightarrow>
     (case name_at s2 of None \<Rightarrow> None | Some (functionName, s3) \<Rightarrow>
     (case param_group (dropWhile re_space s3) of None \<Rightarrow> None | Some (input, s4) \<Rightarrow>
     (case blanks1 s4 of None \<Rightarrow> None | Some s5 \<Rightarrow>
     (case mutability_at s5 of None \<Rightarrow> None | Some (mutability, s6) \<Rightarrow>
     (case strip_prefix ''returns'' (dropWhile re_space s6) of None \<Rightarrow> None | Some s7 \<Rightarrow>
     (case blanks1 s7 of None \<Rightarrow> None | Some s8 \<Rightarrow>
     (case param_group s8 of None \<Rightarrow> None | Some (output, s9) \<Rightarrow>
        Some (functionName, input, mutability, output))))))))))"

text \<open>\<open>FunctionRegex.FindStringSubmatch\<close>: the leftmost match.\<close>

fun FindStringSubmatch :: "string \<Rightarrow> (string \<times> string \<times> string \<times> string) option" where
  "FindStringSubmatch [] = match_here []"
| "FindStringSubmatch (c # cs) =
     (case match_here (c # cs) of Some m \<Rightarrow> Some m | None \<Rightarrow> FindStringSubmatch cs)"

subsection \<open>Descriptors and the external ABI library\<close>

record 'ty Argument =
  ArgName :: string
  ArgType :: 'ty
  Indexed :: bool

record 'ty Method =
  MethodName :: string
  StateMutability :: string
  Inputs :: "'ty Argument list"
  Outputs :: "'ty Argument list"
  Sig :: string
  ID :: "byte list"

record HttpCCIPReadRequest =
  Data :: string
  Sender :: string

type_synonym address = "byte list"

text \<open>
  The program calls into go-ethereum (\<open>abi\<close>, \<open>common\<close>, \<open>hexutil\<close>, \<open>crypto\<close>) and
  \<open>encoding/json\<close>. None of that code belongs to the repository, so every such call is a
  field of \<open>externals\<close>, and the theorems below hold whatever these functions compute.
  \<open>'ty\<close> is \<open>abi.Type\<close> and \<open>'v\<close> the decoded values (\<open>interface{}\<close>). A call that
  returns \<open>(x, error)\<close> gives \<open>None\<close> when the error is set.
\<close>

record ('ty, 'v) externals =
  NewType :: "string \<Rightarrow> 'ty option" \<comment> \<open>\<open>abi.NewType(t, t, nil)\<close>\<close>
  TypeString :: "'ty \<Rightarrow> string" \<comment> \<open>\<open>Type.String()\<close>\<close>
  Keccak256 :: "string \<Rightarrow> byte list" \<comment> \<open>\<open>crypto.Keccak256\<close>\<close>
  Unmarshal :: "string \<Rightarrow> HttpCCIPReadRequest option" \<comment> \<open>\<open>json.Unmarshal\<close>\<close>
  HexToAddress :: "string \<Rightarrow> address" \<comment> \<open>\<open>common.HexToAddress\<close>\<close>
  Decode :: "string \<Rightarrow> byte list option" \<comment> \<open>\<open>hexutil.Decode\<close>\<close>
  UnpackValues :: "'ty Argument list \<Rightarrow> byte list \<Rightarrow> 'v list option"
  PackValues :: "'ty Argument list \<Rightarrow> 'v list \<Rightarrow> byte list option"
  Encode :: "byte list \<Rightarrow> string" \<comment> \<open>\<open>hexutil.Encode\<close>\<close>
  Marshal :: "string \<Rightarrow> string option" \<comment> \<open>\<open>json.Marshal\<close> of \<open>struct{Data string}\<close>\<close>

fun join :: "string \<Rightarrow> string list \<Rightarrow> string" where
  "join sep [] = []"
| "join sep [x] = x"
| "join sep (x # y # ys) = x @ sep @ join sep (y # ys)"

text \<open>
  \<open>abi.NewMethod(name, name, abi.Function, mutability, false, false, inputs, outputs)\<close>
  keeps the two argument lists as given and computes the canonical signature
  \<open>name(type,...)\<close> from the input types, and the identifier as the first four bytes of
  its hash.
\<close>

definition NewMethod ::
  "('ty, 'v) externals \<Rightarrow> string \<Rightarrow> string \<Rightarrow> 'ty Argument list \<Rightarrow> 'ty Argument list \<Rightarrow> 'ty Method"
where
  "NewMethod E name mutability inputs outputs =
     (let sig = name @ ''('' @ join '','' (map (\<lambda>a. TypeString E (ArgType a)) inputs) @ '')''
      in \<lparr>MethodName = name, StateMutability = mutability, Inputs = inputs,
          Outputs = outputs, Sig = sig, ID = take 4 (Keccak256 E sig)\<rparr>)"

subsection \<open>\<open>parseParameters\<close>\<close>

definition paramNames :: string where
  "paramNames = ''abcdefghijklmnopqrstuvwxyz''"

text \<open>
  The body of \<open>for i, param := range params\<close>, from index \<open>i\<close> on, with \<open>abiArgs\<close> as built
  so far. The default name \<open>paramNames[i : i+1]\<close> is computed for every entry that is not
  blank and has one or two fields, before the name given in the text replaces it.
\<close>

fun parseLoop ::
  "('ty, 'v) externals \<Rightarrow> nat \<Rightarrow> string list \<Rightarrow> 'ty Argument list \<Rightarrow> 'ty Argument list result"
where
  "parseLoop E i [] abiArgs = Ok abiArgs"
| "parseLoop E i (p # params) abiArgs =
     (let param = TrimSpace p in
      if param = [] then parseLoop E (Suc i) params abiArgs
      else
        let fields = Fields param in
        if length fields < 1 \<or> 2 < length fields then Err (InvalidParameterFormat param)
        else
          let paramType = fields ! 0 in
          (case slice paramNames i (i + 1) of
             None \<Rightarrow> Panic
           | Some letter \<Rightarrow>
               let paramName = (if length fields = 2 then fields ! 1 else letter) in
               (case NewType E paramType of
                  None \<Rightarrow> Err (InvalidParameterType paramType)
                | Some abiType \<Rightarrow>
                    parseLoop E (Suc i) params
                      (abiArgs @ [\<lparr>ArgName = paramName, ArgType = abiType, Indexed = False\<rparr>]))))"

definition parseParameters :: "('ty, 'v) externals \<Rightarrow> string \<Rightarrow> 'ty Argument list result" where
  "parseParameters E paramStr = parseLoop E 0 (Split paramStr CHR '','') []"

subsection \<open>\<open>ParseFunction\<close>\<close>

definition ParseFunction :: "('ty, 'v) externals \<Rightarrow> string \<Rightarrow> 'ty Method result" where
  "ParseFunction E str =
     (case FindStringSubmatch str of
        None \<Rightarrow> Err ErrInvalidFunctionSignature
      | Some (functionName, input, mutability, output) \<Rightarrow>
          (case parseParameters E input of
             Err e \<Rightarrow> Err (FailedInput e)
           | Panic \<Rightarrow> Panic
           | Ok parsedInputs \<Rightarrow>
               (case parseParameters E output of
                  Err e \<Rightarrow> Err (FailedOutput e)
                | Panic \<Rightarrow> Panic
                | Ok parsedOutputs \<Rightarrow>
                    Ok (NewMethod E functionName mutability parsedInputs parsedOutputs))))"

section \<open>The resolver\<close>

record 'v Variable =
  Name :: string
  Type :: string
  Value :: 'v

record ('ty, 'v) CCIPReadRequest =
  Method :: "'ty Method"
  Input :: "'v Variable list"

text \<open>\<open>Var\<close>: the value and \<open>true\<close> for the first variable of that name, \<open>(nil, false)\<close>
  when the loop ends without one.\<close>

fun VarLoop :: "'v Variable list \<Rightarrow> string \<Rightarrow> 'v option" where
  "VarLoop [] name = None"
| "VarLoop (v # vs) name = (if Name v = name then Some (Value v) else VarLoop vs name)"

definition Var :: "('ty, 'v) CCIPReadRequest \<Rightarrow> string \<Rightarrow> 'v option" where
  "Var r name = VarLoop (Input r) name"

text \<open>A handler returns its outputs, or an error (its message). A sender validator
  returns \<open>nil\<close> (\<open>None\<close>) or an error. An output encoder returns bytes or an error.\<close>

type_synonym ('ty, 'v) CCIPReadHandler = "('ty, 'v) CCIPReadRequest \<Rightarrow> string + 'v list"

type_synonym SenderValidator = "address \<Rightarrow> string option"

type_synonym 'v OutputEncoder = "'v list \<Rightarrow> byte list option"

record ('ty, 'v) registeredHandler =
  regMethod :: "'ty Method" \<comment> \<open>the field \<open>method\<close> of the source\<close>
  handler :: "('ty, 'v) CCIPReadHandler"

record ('ty, 'v) CCIPReadResolver =
  handlers :: "32 word \<rightharpoonup> ('ty, 'v) registeredHandler"
  senderValidator :: "SenderValidator option"
  outputEncoder :: "'v OutputEncoder option"

subsection \<open>Options and construction\<close>

type_synonym ('ty, 'v) Option = "('ty, 'v) CCIPReadResolver \<Rightarrow> ('ty, 'v) CCIPReadResolver"

text \<open>The validator that \<open>Gateways\<close> installs: the loop over the listed addresses, and
  the \<open>return nil\<close> that follows it.\<close>

fun gatewaysValidator :: "address list \<Rightarrow> SenderValidator" where
  "gatewaysValidator [] sender = None"
| "gatewaysValidator (gw # gateways) sender =
     (if sender = gw then None else gatewaysValidator gateways sender)"

definition Gateways :: "address list \<Rightarrow> ('ty, 'v) Option" where
  "Gateways gateways = (\<lambda>r. r\<lparr>senderValidator := Some (gatewaysValidator gateways)\<rparr>)"

definition GatewayValidator :: "SenderValidator \<Rightarrow> ('ty, 'v) Option" where
  "GatewayValidator validator = (\<lambda>r. r\<lparr>senderValidator := Some validator\<rparr>)"

definition OutputEncoding :: "'v OutputEncoder \<Rightarrow> ('ty, 'v) Option" where
  "OutputEncoding encoder = (\<lambda>r. r\<lparr>outputEncoder := Some encoder\<rparr>)"

definition NewCCIPReadResolver :: "('ty, 'v) Option list \<Rightarrow> ('ty, 'v) CCIPReadResolver" where
  "NewCCIPReadResolver options =
     fold (\<lambda>option r. option r) options
       \<lparr>handlers = Map.empty, senderValidator = None, outputEncoder = None\<rparr>"

subsection \<open>\<open>Handle\<close>\<close>

text \<open>\<open>binary.BigEndian.Uint32\<close>: a panic on fewer than four bytes.\<close>

definition Uint32 :: "byte list \<Rightarrow> 32 word option" where
  "Uint32 b =
     (if length b < 4 then None
      else Some (or (ucast (b ! 3))
                 (or (push_bit 8 (ucast (b ! 2)))
                  (or (push_bit 16 (ucast (b ! 1))) (push_bit 24 (ucast (b ! 0)))))))"

text \<open>\<open>Handle\<close> returns an error and leaves the resolver as it was, or stores the pair
  under the selector and returns \<open>nil\<close>; \<open>Ok\<close> carries the resolver after the call.\<close>

definition Handle ::
  "('ty, 'v) externals \<Rightarrow> ('ty, 'v) CCIPReadResolver \<Rightarrow> string \<Rightarrow> ('ty, 'v) CCIPReadHandler
     \<Rightarrow> ('ty, 'v) CCIPReadResolver result"
where
  "Handle E r sig h =
     (case ParseFunction E sig of
        Err e \<Rightarrow> Err e
      | Panic \<Rightarrow> Panic
      | Ok m \<Rightarrow>
          (case Uint32 (ID m) of
             None \<Rightarrow> Panic
           | Some byte4Sig \<Rightarrow>
               Ok (r\<lparr>handlers := (handlers r)(byte4Sig \<mapsto> \<lparr>regMethod = m, handler = h\<rparr>)\<rparr>)))"

subsection \<open>\<open>ServeHTTP\<close>\<close>

record Request =
  HttpMethod :: string
  Body :: "string option" \<comment> \<open>\<open>None\<close>: \<open>io.ReadAll\<close> fails\<close>

record Response =
  Status :: nat
  ContentType :: string
  Content :: string

text \<open>\<open>http.Error\<close> writes the message and a line feed as plain text.\<close>

definition http_Error :: "string \<Rightarrow> nat \<Rightarrow> Response" where
  "http_Error msg code =
     \<lparr>Status = code, ContentType = ''text/plain; charset=utf-8'', Content = msg @ [CHR 0x0A]\<rparr>"

text \<open>
  Besides its response, a request is observed through the calls it makes to the
  configured function values and its read of the handler table; \<open>ServeHTTP\<close> returns them
  in the order in which they happen.
\<close>

datatype call =
    SenderValidatorCalled address
  | HandlersRead "32 word"
  | HandlerCalled "32 word"

definition validateSender ::
  "('ty, 'v) externals \<Rightarrow> ('ty, 'v) CCIPReadResolver \<Rightarrow> HttpCCIPReadRequest
     \<Rightarrow> string option \<times> call list"
where
  "validateSender E r ccipReq =
     (case senderValidator r of
        None \<Rightarrow> (None, [])
      | Some validator \<Rightarrow>
          if Sender ccipReq \<noteq> [] then
            (let senderAddr = HexToAddress E (Sender ccipReq)
             in (validator senderAddr, [SenderValidatorCalled senderAddr]))
          else (None, []))"

text \<open>The loop that pairs the decoded inputs with the names \<open>Inputs[i].Name\<close> of the registered descriptor;
  \<open>None\<close> is the index panic.\<close>

fun bindLoop ::
  "'ty Argument list \<Rightarrow> nat \<Rightarrow> 'v list \<Rightarrow> 'v Variable list \<Rightarrow> 'v Variable list option"
where
  "bindLoop args i [] inputVars = Some inputVars"
| "bindLoop args i (input # inputs) inputVars =
     (if i < length args
      then bindLoop args (Suc i) inputs
             (inputVars @ [\<lparr>Name = ArgName (args ! i), Type = [], Value = input\<rparr>])
      else None)"

text \<open>From \<open>byte4Sig := binary.BigEndian.Uint32(data[:4])\<close> to the end. A response of
  \<open>None\<close> is a panic of the serving goroutine.\<close>

definition dispatch ::
  "('ty, 'v) externals \<Rightarrow> ('ty, 'v) CCIPReadResolver \<Rightarrow> byte list \<Rightarrow> call list
     \<Rightarrow> Response option \<times> call list"
where
  "dispatch E r data t1 =
     (case Uint32 (take 4 data) of
        None \<Rightarrow> (None, t1)
      | Some byte4Sig \<Rightarrow>
          let t2 = t1 @ [HandlersRead byte4Sig] in
          (case handlers r byte4Sig of
             None \<Rightarrow> (Some (http_Error ''function not found'' 404), t2)
           | Some registered \<Rightarrow>
               (case UnpackValues E (Inputs (regMethod registered)) (drop 4 data) of
                  None \<Rightarrow> (Some (http_Error ''failed to unpack input parameters'' 400), t2)
                | Some inputs \<Rightarrow>
                    (case bindLoop (Inputs (regMethod registered)) 0 inputs [] of
                       None \<Rightarrow> (None, t2)
                     | Some inputVars \<Rightarrow>
                         let ccipReadReq = \<lparr>Method = regMethod registered, Input = inputVars\<rparr>;
                             t3 = t2 @ [HandlerCalled byte4Sig]
                         in
                         (case handler registered ccipReadReq of
                            Inl err \<Rightarrow> (Some (http_Error (''handler error: '' @ err) 500), t3)
                          | Inr outputs \<Rightarrow>
                              (case PackValues E (Outputs (regMethod registered)) outputs of
                                 None \<Rightarrow>
                                   (Some (http_Error ''failed to pack output parameters'' 500), t3)
                               | Some outputData \<Rightarrow>
                                   (case Marshal E (Encode E outputData) of
                                      None \<Rightarrow>
                                        (Some (http_Error ''failed to marshal response'' 500), t3)
                                    | Some respBytes \<Rightarrow>
                                        (Some \<lparr>Status = 200, ContentType = ''application/json'',
                                               Content = respBytes\<rparr>, t3))))))))"

definition ServeHTTP ::
  "('ty, 'v) externals \<Rightarrow> ('ty, 'v) CCIPReadResolver \<Rightarrow> Request
     \<Rightarrow> Response option \<times> call list"
where
  "ServeHTTP E r req =
     (if HttpMethod req \<noteq> ''POST'' then (Some (http_Error ''method not allowed'' 405), [])
      else
        (case Body req of
           None \<Rightarrow> (Some (http_Error ''failed to read request body'' 400), [])
         | Some body \<Rightarrow>
             (case Unmarshal E body of
                None \<Rightarrow> (Some (http_Error ''failed to parse request body'' 400), [])
              | Some ccipReq \<Rightarrow>
                  (case validateSender E r ccipReq of
                     (Some err, t1) \<Rightarrow> (Some (http_Error ''unauthorized sender'' 401), t1)
                   | (None, t1) \<Rightarrow>
                       (case Decode E (Data ccipReq) of
                          None \<Rightarrow> (Some (http_Error ''invalid data field'' 400), t1)
                        | Some data \<Rightarrow>
                            if length data < 4
                            then (Some (http_Error ''data field too short'' 400), t1)
                            else dispatch E r data t1)))))"

section \<open>An example environment\<close>

text \<open>
  Stand-ins for the external functions, used only to run the program on concrete
  requests: hexadecimal text as \<open>hexutil\<close> reads and writes it, the JSON envelopes
  \<^verbatim>\<open>{"data":"..."}\<close> and \<^verbatim>\<open>{"data":"...","sender":"..."}\<close>, the static ABI types whose
  values are one 32-byte word each, and the two selectors that the repository's README
  shows (\<open>addr(bytes32)\<close> is \<open>0x3b3b57de\<close>, \<open>text(bytes32,string)\<close> is \<open>0x59d1d43c\<close>).
\<close>

fun index_of :: "char \<Rightarrow> string \<Rightarrow> nat option" where
  "index_of c [] = None"
| "index_of c (d # ds) = (if c = d then Some 0 else map_option Suc (index_of c ds))"

definition fromHexChar :: "char \<Rightarrow> nat option" where
  "fromHexChar c =
     (case index_of c ''0123456789abcdef'' of
        Some n \<Rightarrow> Some n
      | None \<Rightarrow> map_option (\<lambda>n. n + 10) (index_of c ''ABCDEF''))"

fun decodePairs :: "string \<Rightarrow> byte list option" where
  "decodePairs [] = Some []"
| "decodePairs [c] = None"
| "decodePairs (a # b # cs) =
     (case fromHexChar a of
        None \<Rightarrow> None
      | Some x \<Rightarrow>
          (case fromHexChar b of
             None \<Rightarrow> None
           | Some y \<Rightarrow> map_option (\<lambda>bs. of_nat (16 * x + y) # bs) (decodePairs cs)))"

definition has0xPrefix :: "string \<Rightarrow> bool" where
  "has0xPrefix s = (take 2 s = ''0x'' \<or> take 2 s = ''0X'')"

definition example_Decode :: "string \<Rightarrow> byte list option" where
  "example_Decode s = (if has0xPrefix s then decodePairs (drop 2 s) else None)"

definition hexByte :: "byte \<Rightarrow> string" where
  "hexByte b = [''0123456789abcdef'' ! (unat b div 16), ''0123456789abcdef'' ! (unat b mod 16)]"

definition example_Encode :: "byte list \<Rightarrow> string" where
  "example_Encode bs = ''0x'' @ concat (map hexByte bs)"

text \<open>\<open>common.HexToAddress\<close> drops the prefix, reads the digits with no error check and
  keeps the last 20 bytes, padded with zeros on the left.\<close>

fun decodeLenient :: "string \<Rightarrow> byte list" where
  "decodeLenient (a # b # cs) =
     (case fromHexChar a of
        None \<Rightarrow> []
      | Some x \<Rightarrow>
          (case fromHexChar b of
             None \<Rightarrow> []
           | Some y \<Rightarrow> of_nat (16 * x + y) # decodeLenient cs))"
| "decodeLenient cs = []"

definition example_HexToAddress :: "string \<Rightarrow> address" where
  "example_HexToAddress s =
     (let h = (if has0xPrefix s then drop 2 s else s);
          h' = (if odd (length h) then CHR ''0'' # h else h);
          b = decodeLenient h';
          b' = drop (length b - 20) b
      in replicate (20 - length b') 0 @ b')"

definition notQuote :: "char \<Rightarrow> bool" where
  "notQuote c = (c \<noteq> CHR 0x22)"

definition example_Unmarshal :: "string \<Rightarrow> HttpCCIPReadRequest option" where
  \<open>example_Unmarshal body =
     (case strip_prefix ''{"data":"'' body of
        None \<Rightarrow> None
      | Some r \<Rightarrow>
          if dropWhile notQuote r = ''"}'' then Some \<lparr>Data = takeWhile notQuote r, Sender = []\<rparr>
          else
            (case strip_prefix ''","sender":"'' (dropWhile notQuote r) of
               None \<Rightarrow> None
             | Some r' \<Rightarrow>
                 if dropWhile notQuote r' = ''"}''
                 then Some \<lparr>Data = takeWhile notQuote r, Sender = takeWhile notQuote r'\<rparr>
                 else None))\<close>

definition example_Marshal :: "string \<Rightarrow> string option" where
  \<open>example_Marshal d = Some (''{"data":"'' @ d @ ''"}'')\<close>

definition example_NewType :: "string \<Rightarrow> string option" where
  "example_NewType t =
     (if t = ''address'' \<or> t = ''bytes32'' \<or> t = ''uint256'' \<or> t = ''bool'' then Some t else None)"

definition example_Keccak256 :: "string \<Rightarrow> byte list" where
  "example_Keccak256 s =
     (if s = ''addr(bytes32)'' then [0x3b, 0x3b, 0x57, 0xde]
      else if s = ''text(bytes32,string)'' then [0x59, 0xd1, 0xd4, 0x3c]
      else [0, 0, 0, 0])"

fun words32 :: "nat \<Rightarrow> byte list \<Rightarrow> byte list list" where
  "words32 0 d = []"
| "words32 (Suc n) d = take 32 d # words32 n (drop 32 d)"

definition example_UnpackValues :: "string Argument list \<Rightarrow> byte list \<Rightarrow> byte list list option" where
  "example_UnpackValues args d =
     (if length d = 32 * length args then Some (words32 (length args) d) else None)"

definition example_PackValues :: "string Argument list \<Rightarrow> byte list list \<Rightarrow> byte list option" where
  "example_PackValues args vs =
     (if length vs = length args \<and> list_all (\<lambda>v. length v = 32) vs then Some (concat vs)
      else None)"

definition example_env :: "(string, byte list) externals" where
  "example_env =
     \<lparr>NewType = example_NewType, TypeString = (\<lambda>t. t), Keccak256 = example_Keccak256,
      Unmarshal = example_Unmarshal, HexToAddress = example_HexToAddress,
      Decode = example_Decode, UnpackValues = example_UnpackValues,
      PackValues = example_PackValues, Encode = example_Encode, Marshal = example_Marshal\<rparr>"

text \<open>A 32-byte word holding a small number, and two handlers.\<close>

definition word_of :: "nat \<Rightarrow> byte list" where
  "word_of n = replicate 31 0 @ [of_nat n]"

definition zeroHandler :: "(string, byte list) CCIPReadHandler" where
  "zeroHandler = (\<lambda>request. Inr [word_of 0])"

definition oneHandler :: "(string, byte list) CCIPReadHandler" where
  "oneHandler = (\<lambda>request. Inr [word_of 1])"

definition rejectAll :: SenderValidator where
  "rejectAll = (\<lambda>sender. Some ''sender not allowed'')"

text \<open>Two descriptors, as \<open>ParseFunction\<close> builds them: one whose inputs repeat a name,
  one whose input names differ; and a request bound to the first.\<close>

definition bytes32_arg :: "string \<Rightarrow> string Argument" where
  "bytes32_arg n = \<lparr>ArgName = n, ArgType = ''bytes32'', Indexed = False\<rparr>"

definition lookup_method :: "string Method" where
  "lookup_method =
     NewMethod example_env ''lookup'' ''view''
       [bytes32_arg ''key'', bytes32_arg ''namehash'', bytes32_arg ''key''] [bytes32_arg ''a'']"

definition lookup_request :: "(string, byte list) CCIPReadRequest" where
  "lookup_request =
     \<lparr>Method = lookup_method,
      Input = [\<lparr>Name = ''key'', Type = [], Value = word_of 1\<rparr>,
               \<lparr>Name = ''namehash'', Type = [], Value = word_of 2\<rparr>,
               \<lparr>Name = ''key'', Type = [], Value = word_of 3\<rparr>]\<rparr>"

definition record_method :: "string Method" where
  "record_method =
     NewMethod example_env ''record'' ''view''
       [bytes32_arg ''namehash'', bytes32_arg ''key''] [bytes32_arg ''a'']"

definition address_arg :: "string \<Rightarrow> string Argument" where
  "address_arg n = \<lparr>ArgName = n, ArgType = ''address'', Indexed = False\<rparr>"

definition addr_method :: "string Method" where
  "addr_method =
     NewMethod example_env ''addr'' ''view'' [bytes32_arg ''namehash''] [address_arg ''a'']"

definition pair_method :: "string Method" where
  "pair_method =
     NewMethod example_env ''pair'' ''view''
       [bytes32_arg ''namehash'', bytes32_arg ''b''] [address_arg ''a'']"

text \<open>A parameter list of 27 entries, and one whose first entry has three tokens.\<close>

definition bools27 :: string where
  "bools27 = join '','' (replicate 27 ''bool'')"

definition malformed_then_bools :: string where
  "malformed_then_bools = ''bool x y,'' @ join '','' (replicate 26 ''bool'')"

text \<open>A list of 26 entries followed by one of an unrecognised type; signatures with a
  given inputs list, or a given outputs list.\<close>

definition bools26_uint :: string where
  "bools26_uint = join '','' (replicate 26 ''bool'') @ '',uint''"

definition many_signature :: "string \<Rightarrow> string" where
  "many_signature l = ''function many('' @ l @ '') view returns (bool)''"

definition many_outputs :: "string \<Rightarrow> string" where
  "many_outputs l = ''function many(bool) view returns ('' @ l @ '')''"

text \<open>A resolver with one handler, as \<open>Handle\<close> leaves it; a second descriptor with
  the same canonical signature \<open>addr(bytes32)\<close>; requests.\<close>

definition addr_signature :: string where
  "addr_signature = ''function addr(bytes32 namehash) view returns (address)''"

definition addr_resolver :: "(string, byte list) CCIPReadResolver" where
  "addr_resolver =
     \<lparr>handlers = [0x3b3b57de \<mapsto> \<lparr>regMethod = addr_method, handler = zeroHandler\<rparr>],
      senderValidator = None, outputEncoder = None\<rparr>"

definition node_signature :: string where
  "node_signature = ''function addr(bytes32 node) pure returns (bytes32)''"

definition node_method :: "string Method" where
  "node_method =
     NewMethod example_env ''addr'' ''pure'' [bytes32_arg ''node''] [bytes32_arg ''a'']"

definition post :: "string \<Rightarrow> Request" where
  "post body = \<lparr>HttpMethod = ''POST'', Body = Some body\<rparr>"

definition addr_call :: string where
  \<open>addr_call =
     ''{"data":"0x3b3b57de0000000000000000000000000000000000000000000000000000000000000001"}''\<close>

definition addr_call_from :: string where
  \<open>addr_call_from =
     ''{"data":"0x3b3b57de0000000000000000000000000000000000000000000000000000000000000001","sender":"0x2222222222222222222222222222222222222222"}''\<close>

definition short_call_from :: string where
  \<open>short_call_from = ''{"data":"0x12","sender":"0x2222222222222222222222222222222222222222"}''\<close>

definition bad_hex_call_from :: string where
  \<open>bad_hex_call_from = ''{"data":"zz","sender":"0x1111111111111111111111111111111111111111"}''\<close>

definition short_call :: string where
  \<open>short_call = ''{"data":"0x12"}''\<close>

section \<open>Notions used in the statements\<close>

text \<open>The comma-separated entries of a parameter list, trimmed; blank entries included.\<close>

definition entries :: "string \<Rightarrow> string list" where
  "entries l = map TrimSpace (Split l CHR '','')"

text \<open>The number of entries before position \<open>j\<close> that are not blank: the index, in the
  parsed argument list, of the argument that entry \<open>j\<close> produces.\<close>

definition rank :: "string list \<Rightarrow> nat \<Rightarrow> nat" where
  "rank es j = length (filter (\<lambda>e. e \<noteq> []) (take j es))"

text \<open>
  The entry at which the loop of \<open>parseParameters\<close> stops, with its position: the first
  entry that is not blank and has more than two tokens, or stands at position 26 or
  later, or has a type token that the external type system does not recognise.
\<close>

definition stops :: "('ty, 'v) externals \<Rightarrow> nat \<times> string \<Rightarrow> bool" where
  "stops E = (\<lambda>(k, e). e \<noteq> [] \<and>
      (2 < length (Fields e) \<or> 26 \<le> k \<or> NewType E (Fields e ! 0) = None))"

definition first_stop :: "('ty, 'v) externals \<Rightarrow> string \<Rightarrow> (nat \<times> string) option" where
  "first_stop E l = find (stops E) (zip [0..<length (entries l)] (entries l))"

text \<open>
  The words of the pattern, piece by piece: blanks \<open>w1\<close>, the name \<open>n\<close>, blanks \<open>w2\<close>,
  the input list \<open>i\<close> between parentheses, blanks \<open>w3\<close>, the mutability \<open>m\<close>, blanks
  \<open>w4\<close>, \<open>returns\<close>, blanks \<open>w5\<close>, and the output list \<open>out\<close> between parentheses.
\<close>

type_synonym blanks = string

definition pattern_word ::
  "blanks \<Rightarrow> string \<Rightarrow> blanks \<Rightarrow> string \<Rightarrow> blanks \<Rightarrow> string \<Rightarrow> blanks \<Rightarrow> blanks \<Rightarrow> string
     \<Rightarrow> bool"
where
  "pattern_word w1 n w2 i w3 m w4 w5 out =
     (w1 \<noteq> [] \<and> list_all re_space w1
      \<and> 2 \<le> length n \<and> re_letter (hd n) \<and> list_all re_word (tl n)
      \<and> list_all re_space w2
      \<and> list_all re_param i
      \<and> w3 \<noteq> [] \<and> list_all re_space w3
      \<and> (m = ''pure'' \<or> m = ''view'')
      \<and> list_all re_space w4
      \<and> w5 \<noteq> [] \<and> list_all re_space w5
      \<and> list_all re_param out)"

text \<open>Some substring of \<open>s\<close> is a word of the pattern.\<close>

definition has_pattern :: "string \<Rightarrow> bool" where
  "has_pattern s =
     (\<exists>pre w1 n w2 i w3 m w4 w5 out rest.
        pattern_word w1 n w2 i w3 m w4 w5 out \<and>
        s = pre @ ''function'' @ w1 @ n @ w2 @ ''('' @ i @ '')'' @ w3 @ m @ w4 @ ''returns'' @ w5
              @ ''('' @ out @ '')'' @ rest)"

text \<open>The sender validation step ends the request: a validator is configured, a
  sender is supplied, and the validator returns an error for it.\<close>

definition senderRejected ::
  "('ty, 'v) externals \<Rightarrow> ('ty, 'v) CCIPReadResolver \<Rightarrow> HttpCCIPReadRequest \<Rightarrow> bool"
where
  "senderRejected E r ccipReq =
     (case senderValidator r of
        None \<Rightarrow> False
      | Some validator \<Rightarrow>
          Sender ccipReq \<noteq> [] \<and> validator (HexToAddress E (Sender ccipReq)) \<noteq> None)"

text \<open>The data field does not decode, or decodes to fewer than four bytes.\<close>

definition malformedData :: "('ty, 'v) externals \<Rightarrow> HttpCCIPReadRequest \<Rightarrow> bool" where
  "malformedData E ccipReq =
     (case Decode E (Data ccipReq) of None \<Rightarrow> True | Some data \<Rightarrow> length data < 4)"

section \<open>Looking up bound parameters\<close>

lemma lookup_method_parsed:
  "ParseFunction example_env
     ''function lookup(bytes32 key, bytes32 namehash, bytes32 key) view returns (bytes32)''
   = Ok lookup_method"
  by code_simp

lemma record_method_parsed:
  "ParseFunction example_env
     ''function record(bytes32 namehash, bytes32 key) view returns (bytes32)''
   = Ok record_method"
  by code_simp

lemma VarLoop_absent: "name \<notin> Name ` set vs \<Longrightarrow> VarLoop vs name = None"
  by (induction vs) auto

lemma VarLoop_present: "name \<in> Name ` set vs \<Longrightarrow> VarLoop vs name \<noteq> None"
  by (induction vs) auto

lemma VarLoop_first:
  "i < length vs \<Longrightarrow> Name (vs ! i) = name \<Longrightarrow> (\<And>j. j < i \<Longrightarrow> Name (vs ! j) \<noteq> name)
     \<Longrightarrow> VarLoop vs name = Some (Value (vs ! i))"
proof (induction vs arbitrary: i)
  case Nil
  then show ?case by simp
next
  case (Cons v vs)
  show ?case
  proof (cases i)
    case 0
    with Cons.prems show ?thesis by simp
  next
    case (Suc k)
    from Cons.prems(3) [of 0] Suc have head: "Name v \<noteq> name" by simp
    have "VarLoop vs name = Some (Value (vs ! k))"
    proof (rule Cons.IH)
      show "k < length vs" using Cons.prems(1) Suc by simp
      show "Name (vs ! k) = name" using Cons.prems(2) Suc by simp
      show "Name (vs ! j) \<noteq> name" if "j < k" for j
        using Cons.prems(3) [of "Suc j"] that Suc by simp
    qed
    with head Suc show ?thesis by simp
  qed
qed

text \<open>
  C8. \<open>Var\<close> answers "not found" exactly when no bound parameter has the name, and it
  never fails otherwise: when the name occurs, also several times, the value returned is
  that of the first parameter of that name in declaration order.
\<close>

theorem Var_first_match:
  "(Var r name = None \<longleftrightarrow> name \<notin> Name ` set (Input r)) \<and>
   (\<forall>i < length (Input r).
      Name (Input r ! i) = name \<and> (\<forall>j < i. Name (Input r ! j) \<noteq> name)
        \<longrightarrow> Var r name = Some (Value (Input r ! i)))"
  unfolding Var_def using VarLoop_absent VarLoop_present VarLoop_first by blast

theorem Var_first_match_witness:
  "Var lookup_request ''key'' = Some (word_of 1) \<and> Var lookup_request ''owner'' = None"
proof -
  have len: "0 < length (Input lookup_request)"
    by (simp add: lookup_request_def)
  have here: "Name (Input lookup_request ! 0) = ''key''"
    by (simp add: lookup_request_def)
  have first: "Value (Input lookup_request ! 0) = word_of 1"
    by (simp add: lookup_request_def)
  have absent: "''owner'' \<notin> Name ` set (Input lookup_request)"
    by (simp add: lookup_request_def)
  have "Var lookup_request ''key'' = Some (Value (Input lookup_request ! 0))"
    using Var_first_match [of lookup_request "''key''"] len here by blast
  moreover have "Var lookup_request ''owner'' = None"
    using Var_first_match [of lookup_request "''owner''"] absent by blast
  ultimately show ?thesis using first by simp
qed

section \<open>Binding decoded values\<close>

lemma bindLoop_zip:
  "i + length vs \<le> length args \<Longrightarrow>
   bindLoop args i vs acc =
     Some (acc @ map (\<lambda>(a, v). \<lparr>Name = ArgName a, Type = [], Value = v\<rparr>) (zip (drop i args) vs))"
proof (induction vs arbitrary: i acc)
  case Nil
  then show ?case by simp
next
  case (Cons v vs)
  then have "i < length args" by simp
  then have "drop i args = args ! i # drop (Suc i) args" by (simp add: Cons_nth_drop_Suc)
  with Cons show ?case by simp
qed

lemma VarLoop_map_of:
  "VarLoop (map (\<lambda>(a, v). \<lparr>Name = ArgName a, Type = [], Value = v\<rparr>) (zip args vs)) name =
   map_of (zip (map ArgName args) vs) name"
proof (induction args arbitrary: vs)
  case Nil
  then show ?case by simp
next
  case (Cons a args)
  then show ?case by (cases vs) auto
qed

text \<open>
  C7, as the spec states it, fails on a descriptor whose inputs repeat a name: the
  signature \<open>function lookup(bytes32 key, bytes32 namehash, bytes32 key) ...\<close> parses, three
  values bind to it, and looking up the third parameter by its name \<open>key\<close> returns the
  first value.
\<close>

theorem bind_then_Var_counterexample:
  "ParseFunction example_env
     ''function lookup(bytes32 key, bytes32 namehash, bytes32 key) view returns (bytes32)''
     = Ok lookup_method
   \<and> length [word_of 1, word_of 2, word_of 3] = length (Inputs lookup_method)
   \<and> bindLoop (Inputs lookup_method) 0 [word_of 1, word_of 2, word_of 3] []
       = Some (Input lookup_request)
   \<and> map (\<lambda>a. Var lookup_request (ArgName a)) (Inputs lookup_method)
       = [Some (word_of 1), Some (word_of 2), Some (word_of 1)]
   \<and> map (\<lambda>a. Var lookup_request (ArgName a)) (Inputs lookup_method)
       \<noteq> map Some [word_of 1, word_of 2, word_of 3]"
  by code_simp

text \<open>
  C7, amended. For every descriptor whose input names are pairwise distinct and every
  value list as long as its inputs, binding succeeds, and looking up every parameter by
  its declared name returns exactly the values, in order.
\<close>

theorem bind_then_Var:
  assumes "length vs = length args" and "distinct (map ArgName args)"
  shows "\<exists>vars. bindLoop args 0 vs [] = Some vars \<and>
           map (\<lambda>a. Var \<lparr>Method = m, Input = vars\<rparr> (ArgName a)) args = map Some vs"
proof -
  let ?vars = "map (\<lambda>(a, v). \<lparr>Name = ArgName a, Type = [], Value = v\<rparr>) (zip args vs)"
  let ?look = "\<lambda>a. Var \<lparr>Method = m, Input = ?vars\<rparr> (ArgName a)"
  have b: "bindLoop args 0 vs [] = Some ?vars"
    using bindLoop_zip [of 0 vs args "[]"] assms(1) by simp
  have "map ?look args = map Some vs"
  proof (rule nth_equalityI)
    show "length (map ?look args) = length (map Some vs)"
      using assms(1) by simp
  next
    fix i
    assume "i < length (map ?look args)"
    then have i: "i < length args" by simp
    have "map_of (zip (map ArgName args) vs) (map ArgName args ! i) = Some (vs ! i)"
      by (rule map_of_zip_nth) (use assms i in simp_all)
    with i assms(1) show "map ?look args ! i = map Some vs ! i"
      by (simp add: Var_def VarLoop_map_of)
  qed
  with b show ?thesis by blast
qed

theorem bind_then_Var_witness:
  "length [word_of 1, word_of 2] = length (Inputs record_method)
   \<and> distinct (map ArgName (Inputs record_method))
   \<and> (\<exists>vars. bindLoop (Inputs record_method) 0 [word_of 1, word_of 2] [] = Some vars \<and>
         map (\<lambda>a. Var \<lparr>Method = record_method, Input = vars\<rparr> (ArgName a)) (Inputs record_method)
           = map Some [word_of 1, word_of 2])"
proof -
  have len: "length [word_of 1, word_of 2] = length (Inputs record_method)"
    by code_simp
  have dist: "distinct (map ArgName (Inputs record_method))"
    by code_simp
  from len dist bind_then_Var [OF len dist, of record_method] show ?thesis by blast
qed

section \<open>The parameter loop\<close>

lemma Fields_Nil: "Fields [] = []"
  by (simp add: Fields_def)

lemma slice_paramNames:
  "slice paramNames i (i + 1) = (if i < 26 then Some [paramNames ! i] else None)"
proof -
  have len: "length paramNames = 26" by (simp add: paramNames_def)
  show ?thesis
  proof (cases "i < 26")
    case True
    then have "drop i paramNames = paramNames ! i # drop (Suc i) paramNames"
      using len by (simp add: Cons_nth_drop_Suc)
    with True len show ?thesis by (simp add: slice_def)
  next
    case False
    with len show ?thesis by (simp add: slice_def)
  qed
qed

text \<open>One round of the loop, by the branch it takes.\<close>

lemma parseLoop_blank:
  "TrimSpace p = [] \<Longrightarrow> parseLoop E i (p # ps) acc = parseLoop E (Suc i) ps acc"
  by simp

lemma parseLoop_format:
  assumes "TrimSpace p \<noteq> []" and "2 < length (Fields (TrimSpace p))"
  shows "parseLoop E i (p # ps) acc = Err (InvalidParameterFormat (TrimSpace p))"
  using assms by (simp add: Let_def)

lemma parseLoop_panic:
  assumes "TrimSpace p \<noteq> []" and "1 \<le> length (Fields (TrimSpace p))"
    and "length (Fields (TrimSpace p)) \<le> 2" and "26 \<le> i"
  shows "parseLoop E i (p # ps) acc = Panic"
proof -
  from assms(4) have "slice paramNames i (i + 1) = None"
    using slice_paramNames [of i] by simp
  moreover from assms(2) have "Fields (TrimSpace p) \<noteq> []" by auto
  ultimately show ?thesis unfolding parseLoop.simps Let_def
    using assms(1,3) by (simp only: option.case) auto
qed

lemma parseLoop_type:
  assumes "TrimSpace p \<noteq> []" and "1 \<le> length (Fields (TrimSpace p))"
    and "length (Fields (TrimSpace p)) \<le> 2" and "i < 26"
    and "NewType E (Fields (TrimSpace p) ! 0) = None"
  shows "parseLoop E i (p # ps) acc = Err (InvalidParameterType (Fields (TrimSpace p) ! 0))"
proof -
  from assms(4) have "slice paramNames i (i + 1) = Some [paramNames ! i]"
    using slice_paramNames [of i] by simp
  moreover from assms(2) have "Fields (TrimSpace p) \<noteq> []" by auto
  ultimately show ?thesis unfolding parseLoop.simps Let_def
    using assms(1,3,5) by (simp only: option.case) auto
qed

lemma parseLoop_next:
  assumes "TrimSpace p \<noteq> []" and "1 \<le> length (Fields (TrimSpace p))"
    and "length (Fields (TrimSpace p)) \<le> 2" and "i < 26"
    and "NewType E (Fields (TrimSpace p) ! 0) = Some ty"
  shows "parseLoop E i (p # ps) acc =
         parseLoop E (Suc i) ps
           (acc @ [\<lparr>ArgName = (if length (Fields (TrimSpace p)) = 2 then Fields (TrimSpace p) ! 1
                                else [paramNames ! i]),
                    ArgType = ty, Indexed = False\<rparr>])"
proof -
  from assms(4) have "slice paramNames i (i + 1) = Some [paramNames ! i]"
    using slice_paramNames [of i] by simp
  moreover from assms(2) have "Fields (TrimSpace p) \<noteq> []" by auto
  ultimately show ?thesis unfolding parseLoop.simps Let_def
    using assms(1,3,5) by (simp only: option.case) auto
qed

text \<open>What a round that does not stop the loop has established.\<close>

lemma parseLoop_Ok_cases:
  assumes "parseLoop E i (p # ps) acc = Ok args"
  shows "(TrimSpace p = [] \<and> parseLoop E (Suc i) ps acc = Ok args) \<or>
         (TrimSpace p \<noteq> [] \<and> 1 \<le> length (Fields (TrimSpace p)) \<and>
          length (Fields (TrimSpace p)) \<le> 2 \<and> i < 26 \<and>
          (\<exists>ty. NewType E (Fields (TrimSpace p) ! 0) = Some ty \<and>
             parseLoop E (Suc i) ps
               (acc @ [\<lparr>ArgName = (if length (Fields (TrimSpace p)) = 2
                                    then Fields (TrimSpace p) ! 1 else [paramNames ! i]),
                        ArgType = ty, Indexed = False\<rparr>]) = Ok args))"
proof (cases "TrimSpace p = []")
  case True
  from assms show ?thesis unfolding parseLoop_blank [OF True] using True by simp
next
  case ne: False
  show ?thesis
  proof (cases "2 < length (Fields (TrimSpace p))")
    case True
    from assms show ?thesis unfolding parseLoop_format [OF ne True] by simp
  next
    case False
    then have le: "length (Fields (TrimSpace p)) \<le> 2" by simp
    show ?thesis
    proof (cases "Fields (TrimSpace p) = []")
      case True
      with ne assms show ?thesis by (simp add: Let_def)
    next
      case False
      then have ge: "1 \<le> length (Fields (TrimSpace p))" by (cases "Fields (TrimSpace p)") auto
      show ?thesis
      proof (cases "i < 26")
        case False
        then have "26 \<le> i" by simp
        from assms show ?thesis unfolding parseLoop_panic [OF ne ge le \<open>26 \<le> i\<close>] by simp
      next
        case lt: True
        show ?thesis
        proof (cases "NewType E (Fields (TrimSpace p) ! 0)")
          case None
          from assms show ?thesis unfolding parseLoop_type [OF ne ge le lt None] by simp
        next
          case (Some ty)
          from assms
          have "parseLoop E (Suc i) ps
               (acc @ [\<lparr>ArgName = (if length (Fields (TrimSpace p)) = 2
                                    then Fields (TrimSpace p) ! 1 else [paramNames ! i]),
                        ArgType = ty, Indexed = False\<rparr>]) = Ok args"
            unfolding parseLoop_next [OF ne ge le lt Some] .
          with ne ge le lt Some show ?thesis by blast
        qed
      qed
    qed
  qed
qed

lemma fields_from_nonempty:
  "cur \<noteq> [] \<or> (\<exists>c \<in> set s. \<not> isSpace c) \<Longrightarrow> fields_from cur s \<noteq> []"
  by (induction s arbitrary: cur) auto

lemma TrimSpace_nonspace:
  assumes "TrimSpace p \<noteq> []"
  shows "\<exists>c \<in> set (TrimSpace p). \<not> isSpace c"
proof -
  let ?d = "dropWhile isSpace (rev (dropWhile isSpace p))"
  from assms have ne: "?d \<noteq> []" by (simp add: TrimSpace_def)
  then have "\<not> isSpace (hd ?d)" by (rule hd_dropWhile)
  moreover from ne have "hd ?d \<in> set ?d" by simp
  ultimately show ?thesis by (auto simp: TrimSpace_def)
qed

lemma Fields_TrimSpace: "TrimSpace p \<noteq> [] \<Longrightarrow> 1 \<le> length (Fields (TrimSpace p))"
proof -
  assume "TrimSpace p \<noteq> []"
  then have "Fields (TrimSpace p) \<noteq> []"
    unfolding Fields_def by (intro fields_from_nonempty disjI2 TrimSpace_nonspace)
  then show ?thesis by (cases "Fields (TrimSpace p)") auto
qed

subsection \<open>The default name is sliced before the name in the text is read\<close>

lemma parseLoop_panics:
  assumes "j < length ps" and "26 \<le> i + j"
    and "length (Fields (TrimSpace (ps ! j))) = 1"
    and "\<And>k. k < j \<Longrightarrow> TrimSpace (ps ! k) = [] \<or>
           (1 \<le> length (Fields (TrimSpace (ps ! k))) \<and> length (Fields (TrimSpace (ps ! k))) \<le> 2 \<and>
            (i + k < 26 \<longrightarrow> NewType E (Fields (TrimSpace (ps ! k)) ! 0) \<noteq> None))"
  shows "parseLoop E i ps acc = Panic"
  using assms
proof (induction ps arbitrary: i j acc)
  case Nil
  then show ?case by simp
next
  case (Cons p ps)
  show ?case
  proof (cases j)
    case 0
    with Cons.prems(3) have one: "length (Fields (TrimSpace p)) = 1" by simp
    then have "TrimSpace p \<noteq> []" using Fields_Nil by fastforce
    moreover from 0 Cons.prems(2) have "26 \<le> i" by simp
    ultimately show ?thesis using one by (intro parseLoop_panic) simp_all
  next
    case (Suc j')
    have rest: "parseLoop E (Suc i) ps acc' = Panic" for acc'
    proof (rule Cons.IH [of j'])
      show "j' < length ps" using Cons.prems(1) Suc by simp
      show "26 \<le> Suc i + j'" using Cons.prems(2) Suc by simp
      show "length (Fields (TrimSpace (ps ! j'))) = 1" using Cons.prems(3) Suc by simp
      show "TrimSpace (ps ! k) = [] \<or>
           (1 \<le> length (Fields (TrimSpace (ps ! k))) \<and> length (Fields (TrimSpace (ps ! k))) \<le> 2 \<and>
            (Suc i + k < 26 \<longrightarrow> NewType E (Fields (TrimSpace (ps ! k)) ! 0) \<noteq> None))"
        if "k < j'" for k
        using Cons.prems(4) [of "Suc k"] that Suc by simp
    qed
    from Cons.prems(4) [of 0] Suc
    have head: "TrimSpace p = [] \<or>
           (1 \<le> length (Fields (TrimSpace p)) \<and> length (Fields (TrimSpace p)) \<le> 2 \<and>
            (i < 26 \<longrightarrow> NewType E (Fields (TrimSpace p) ! 0) \<noteq> None))"
      by simp
    then show ?thesis
    proof
      assume "TrimSpace p = []"
      then show ?thesis using rest by (simp add: parseLoop_blank)
    next
      assume ok: "1 \<le> length (Fields (TrimSpace p)) \<and> length (Fields (TrimSpace p)) \<le> 2 \<and>
            (i < 26 \<longrightarrow> NewType E (Fields (TrimSpace p) ! 0) \<noteq> None)"
      then have ne: "TrimSpace p \<noteq> []" using Fields_Nil by fastforce
      show ?thesis
      proof (cases "i < 26")
        case True
        with ok obtain ty where "NewType E (Fields (TrimSpace p) ! 0) = Some ty" by auto
        with ok ne True rest show ?thesis by (simp add: parseLoop_next del: parseLoop.simps)
      next
        case False
        with ok ne show ?thesis by (intro parseLoop_panic) simp_all
      qed
    qed
  qed
qed

lemma bools27_entries:
  "length (entries bools27) = 27 \<and> list_all (\<lambda>e. e = ''bool'') (entries bools27)"
  by code_simp

lemma many_bools27_match:
  "FindStringSubmatch (many_signature bools27) = Some (''many'', bools27, ''view'', ''bool'')"
  by code_simp

lemma many_outputs_bools27_match:
  "FindStringSubmatch (many_outputs bools27) = Some (''many'', ''bool'', ''view'', bools27)"
  by code_simp

text \<open>
  C10, as stated, fails when an earlier entry already stops the loop with an error. The
  inputs list of \<open>function many(bool x y,bool,...,bool) view returns (bool)\<close> has 27
  entries and the entry at position 26 gives only a type, but the first entry has three
  tokens: \<open>parseParameters\<close> returns the format error, and \<open>ParseFunction\<close> and \<open>Handle\<close>
  return it too. Nothing panics.
\<close>

theorem late_unnamed_parameter_panics_counterexample:
  "FindStringSubmatch (many_signature malformed_then_bools)
     = Some (''many'', malformed_then_bools, ''view'', ''bool'')
   \<and> length (entries malformed_then_bools) = 27
   \<and> length (Fields (entries malformed_then_bools ! 26)) = 1
   \<and> parseParameters example_env malformed_then_bools = Err (InvalidParameterFormat ''bool x y'')
   \<and> ParseFunction example_env (many_signature malformed_then_bools)
       = Err (FailedInput (InvalidParameterFormat ''bool x y''))
   \<and> (case Handle example_env addr_resolver (many_signature malformed_then_bools) zeroHandler of
         Err e \<Rightarrow> e = FailedInput (InvalidParameterFormat ''bool x y'')
       | Ok r \<Rightarrow> False
       | Panic \<Rightarrow> False)"
  by code_simp

text \<open>
  C10, amended. Let the pattern match a signature, and let \<open>l\<close> be its inputs list or its
  outputs list. If the entry of \<open>l\<close> at a position \<open>j \<ge> 26\<close> gives only a type, no entry
  before it has more than two tokens, and the type tokens of the entries before position
  26 are recognised, then \<open>parseParameters\<close> panics on \<open>l\<close>: it slices
  \<open>paramNames[i : i+1]\<close> beyond the 26 letters. Registration then crashes: \<open>ParseFunction\<close>
  and \<open>Handle\<close> panic when \<open>l\<close> is the inputs list, and also when \<open>l\<close> is the outputs list
  unless the inputs list returns an error first.
\<close>

theorem late_unnamed_parameter_panics:
  assumes "FindStringSubmatch s = Some (functionName, input, mutability, output)"
    and "l = input \<or> l = output"
    and "j < length (entries l)" and "26 \<le> j"
    and "length (Fields (entries l ! j)) = 1"
    and "\<forall>k < j. length (Fields (entries l ! k)) \<le> 2 \<and>
           (k < 26 \<and> entries l ! k \<noteq> [] \<longrightarrow> NewType E (Fields (entries l ! k) ! 0) \<noteq> None)"
  shows "parseParameters E l = Panic
       \<and> (l = input \<longrightarrow> ParseFunction E s = Panic \<and> Handle E r s h = Panic)
       \<and> ((\<forall>e. parseParameters E input \<noteq> Err e)
            \<longrightarrow> ParseFunction E s = Panic \<and> Handle E r s h = Panic)"
proof -
  let ?ps = "Split l CHR '',''"
  have panic: "parseParameters E l = Panic"
    unfolding parseParameters_def
  proof (rule parseLoop_panics [of j])
    show "j < length ?ps" using assms(3) by (simp add: entries_def)
    show "26 \<le> 0 + j" using assms(4) by simp
    show "length (Fields (TrimSpace (?ps ! j))) = 1"
      using assms(3,5) by (simp add: entries_def)
    show "TrimSpace (?ps ! k) = [] \<or>
          (1 \<le> length (Fields (TrimSpace (?ps ! k))) \<and> length (Fields (TrimSpace (?ps ! k))) \<le> 2 \<and>
           (0 + k < 26 \<longrightarrow> NewType E (Fields (TrimSpace (?ps ! k)) ! 0) \<noteq> None))"
      if "k < j" for k
    proof -
      from that assms(3) have e: "entries l ! k = TrimSpace (?ps ! k)" by (simp add: entries_def)
      from assms(6) that e Fields_TrimSpace [of "?ps ! k"] show ?thesis by auto
    qed
  qed
  have parse: "ParseFunction E s = Panic" if "\<forall>e. parseParameters E input \<noteq> Err e"
  proof (cases "parseParameters E input")
    case (Ok ins)
    with that panic assms(2) have "parseParameters E output = Panic" by auto
    with Ok assms(1) show ?thesis by (simp add: ParseFunction_def)
  next
    case (Err e)
    with that show ?thesis by simp
  next
    case Panic
    with assms(1) show ?thesis by (simp add: ParseFunction_def)
  qed
  have handle: "Handle E r s h = Panic" if "ParseFunction E s = Panic"
    using that by (simp add: Handle_def)
  from panic have "l = input \<Longrightarrow> \<forall>e. parseParameters E input \<noteq> Err e" by simp
  with panic parse handle show ?thesis by blast
qed

theorem late_unnamed_parameter_panics_witness:
  "parseParameters example_env bools27 = Panic
   \<and> ParseFunction example_env (many_signature bools27) = Panic
   \<and> Handle example_env addr_resolver (many_signature bools27) zeroHandler = Panic
   \<and> ParseFunction example_env (many_outputs bools27) = Panic
   \<and> Handle example_env addr_resolver (many_outputs bools27) zeroHandler = Panic"
proof -
  have ents: "length (entries bools27) = 27" "list_all (\<lambda>e. e = ''bool'') (entries bools27)"
    using bools27_entries by simp_all
  have each: "entries bools27 ! k = ''bool''" if "k < 27" for k
    using ents that by (simp add: list_all_length)
  have f: "Fields ''bool'' = [''bool'']" by code_simp
  have t: "NewType example_env ''bool'' \<noteq> None" by code_simp
  have 1: "26 < length (entries bools27)" using ents by simp
  have 2: "(26::nat) \<le> 26" by simp
  have 3: "length (Fields (entries bools27 ! 26)) = 1" using each [of 26] f by simp
  have 4: "\<forall>k < 26. length (Fields (entries bools27 ! k)) \<le> 2 \<and>
           (k < 26 \<and> entries bools27 ! k \<noteq> [] \<longrightarrow>
              NewType example_env (Fields (entries bools27 ! k) ! 0) \<noteq> None)"
    using each f t by simp
  have ins: "bools27 = bools27 \<or> bools27 = ''bool''" by simp
  have outs: "bools27 = ''bool'' \<or> bools27 = bools27" by simp
  have parsed: "\<forall>e. parseParameters example_env ''bool'' \<noteq> Err e"
  proof -
    have "(case parseParameters example_env ''bool'' of
             Err e \<Rightarrow> False | Ok a \<Rightarrow> True | Panic \<Rightarrow> True)"
      by code_simp
    then show ?thesis by (auto split: result.splits)
  qed
  from late_unnamed_parameter_panics [OF many_bools27_match ins 1 2 3 4,
      of addr_resolver zeroHandler]
  have a: "parseParameters example_env bools27 = Panic
     \<and> ParseFunction example_env (many_signature bools27) = Panic
     \<and> Handle example_env addr_resolver (many_signature bools27) zeroHandler = Panic"
    by blast
  from late_unnamed_parameter_panics [OF many_outputs_bools27_match outs 1 2 3 4,
      of addr_resolver zeroHandler] parsed
  have b: "ParseFunction example_env (many_outputs bools27) = Panic
     \<and> Handle example_env addr_resolver (many_outputs bools27) zeroHandler = Panic"
    by blast
  from a b show ?thesis by simp
qed

subsection \<open>Default names\<close>

lemma parseLoop_prefix: "parseLoop E i ps acc = Ok args \<Longrightarrow> \<exists>rest. args = acc @ rest"
proof (induction ps arbitrary: i acc)
  case Nil
  then show ?case by simp
next
  case (Cons p ps)
  from parseLoop_Ok_cases [OF Cons.prems] Cons.IH show ?case by fastforce
qed

lemma parseLoop_names:
  assumes "parseLoop E i ps acc = Ok args" and "j < length ps"
    and "length (Fields (TrimSpace (ps ! j))) = 1"
  shows "i + j < 26 \<and> length acc + rank (map TrimSpace ps) j < length args \<and>
         ArgName (args ! (length acc + rank (map TrimSpace ps) j)) = [paramNames ! (i + j)]"
  using assms
proof (induction ps arbitrary: i j acc)
  case Nil
  then show ?case by simp
next
  case (Cons p ps)
  note step = parseLoop_Ok_cases [OF Cons.prems(1)]
  show ?case
  proof (cases j)
    case 0
    with Cons.prems(3) have one: "length (Fields (TrimSpace p)) = 1" by simp
    then have ne: "TrimSpace p \<noteq> []" using Fields_Nil by fastforce
    from step ne one obtain ty where lt: "i < 26" and
      next_: "parseLoop E (Suc i) ps
               (acc @ [\<lparr>ArgName = [paramNames ! i], ArgType = ty, Indexed = False\<rparr>]) = Ok args"
      by auto
    from parseLoop_prefix [OF next_] obtain rest where
      "args = (acc @ [\<lparr>ArgName = [paramNames ! i], ArgType = ty, Indexed = False\<rparr>]) @ rest"
      by blast
    with lt 0 show ?thesis by (simp add: rank_def nth_append)
  next
    case (Suc j')
    have j': "j' < length ps" using Cons.prems(2) Suc by simp
    have one: "length (Fields (TrimSpace (ps ! j'))) = 1" using Cons.prems(3) Suc by simp
    show ?thesis
    proof (cases "TrimSpace p = []")
      case True
      with step have "parseLoop E (Suc i) ps acc = Ok args" by simp
      from Cons.IH [OF this j' one] True Suc show ?thesis by (simp add: rank_def)
    next
      case False
      with step obtain a where
        "parseLoop E (Suc i) ps (acc @ [a]) = Ok args"
        by auto
      from Cons.IH [OF this j' one] False Suc show ?thesis by (simp add: rank_def)
    qed
  qed
qed


lemma pair_method_parsed:
  "ParseFunction example_env ''function pair(bytes32 namehash, bytes32) view returns (address)''
   = Ok pair_method"
  by code_simp

lemma pair_method_match:
  "FindStringSubmatch ''function pair(bytes32 namehash, bytes32) view returns (address)''
   = Some (''pair'', ''bytes32 namehash, bytes32'', ''view'', ''address'')"
  by code_simp

text \<open>
  C4, as stated, fails: the position restarts at zero for the outputs list. In
  \<open>function addr(bytes32) view returns (address)\<close> the input and the output are both
  named \<open>a\<close>; the output is not named \<open>b\<close>.
\<close>

theorem ParseFunction_default_names_counterexample:
  "ParseFunction example_env ''function addr(bytes32) view returns (address)''
     = Ok (NewMethod example_env ''addr'' ''view'' [bytes32_arg ''a''] [address_arg ''a''])
   \<and> map ArgName (Outputs (NewMethod example_env ''addr'' ''view'' [bytes32_arg ''a'']
                              [address_arg ''a''])) = [''a'']
   \<and> [''a''] \<noteq> [''b'']"
  by code_simp

text \<open>
  C4, amended. In every successful parse, an entry that gives only a type is named by the
  letter at its zero-based position among the comma-separated entries of its own list
  (blank entries are counted, and the position is below 26); the positions of the
  outputs list start again at zero.
\<close>

theorem ParseFunction_default_names:
  assumes "ParseFunction E s = Ok m"
    and "FindStringSubmatch s = Some (functionName, input, mutability, output)"
  shows "(\<forall>j < length (entries input). length (Fields (entries input ! j)) = 1 \<longrightarrow>
            j < 26 \<and> rank (entries input) j < length (Inputs m) \<and>
            ArgName (Inputs m ! rank (entries input) j) = [paramNames ! j])
       \<and> (\<forall>j < length (entries output). length (Fields (entries output ! j)) = 1 \<longrightarrow>
            j < 26 \<and> rank (entries output) j < length (Outputs m) \<and>
            ArgName (Outputs m ! rank (entries output) j) = [paramNames ! j])"
proof -
  from assms obtain ins outs where
    ins: "parseParameters E input = Ok ins" and outs: "parseParameters E output = Ok outs"
    and m: "m = NewMethod E functionName mutability ins outs"
    by (auto simp: ParseFunction_def split: result.splits)
  have names: "j < 26 \<and> rank (entries l) j < length args \<and>
               ArgName (args ! rank (entries l) j) = [paramNames ! j]"
    if "parseParameters E l = Ok args" and "j < length (entries l)"
      and "length (Fields (entries l ! j)) = 1" for l args j
    using parseLoop_names [of E 0 "Split l CHR '',''" "[]" args j] that
    by (simp add: parseParameters_def entries_def)
  from m have "Inputs m = ins" and "Outputs m = outs" by (simp_all add: NewMethod_def Let_def)
  with names [OF ins] names [OF outs] show ?thesis by blast
qed

theorem ParseFunction_default_names_witness:
  "ArgName (Inputs pair_method ! 1) = ''b'' \<and> ArgName (Outputs pair_method ! 0) = ''a''"
proof -
  let ?inp = "''bytes32 namehash, bytes32''"
  let ?out = "''address''"
  note names = ParseFunction_default_names [OF pair_method_parsed pair_method_match]
  have i: "1 < length (entries ?inp)" "length (Fields (entries ?inp ! 1)) = 1"
    "rank (entries ?inp) 1 = 1" "[paramNames ! 1] = ''b''"
    by code_simp+
  have o: "0 < length (entries ?out)" "length (Fields (entries ?out ! 0)) = 1"
    "rank (entries ?out) 0 = 0" "[paramNames ! 0] = ''a''"
    by code_simp+
  from names i have "ArgName (Inputs pair_method ! 1) = ''b''" by metis
  moreover from names o have "ArgName (Outputs pair_method ! 0) = ''a''" by metis
  ultimately show ?thesis by simp
qed

section \<open>Rejected signatures\<close>

subsection \<open>The matcher accepts the words of the pattern, and nothing else\<close>

lemma class_facts:
  "\<not> re_space CHR ''(''" "\<not> re_word CHR ''(''" "\<not> re_param CHR '')''"
  "\<not> re_space CHR ''p''" "\<not> re_space CHR ''v''" "\<not> re_space CHR ''r''"
  by (simp_all add: re_space_def re_word_def re_param_def lower_letters_def upper_letters_def
      digits_def)

lemma letter_not_space: "re_letter c \<Longrightarrow> \<not> re_space c"
  by (auto simp: re_space_def re_letter_def lower_letters_def upper_letters_def)

lemma space_not_word: "re_space c \<Longrightarrow> \<not> re_word c"
  by (auto simp: re_space_def re_word_def lower_letters_def upper_letters_def digits_def)

lemma run_then_stop:
  assumes "list_all P xs" and "ys = [] \<or> \<not> P (hd ys)"
  shows "takeWhile P (xs @ ys) = xs" and "dropWhile P (xs @ ys) = ys"
proof -
  have stop: "takeWhile P ys = [] \<and> dropWhile P ys = ys"
    using assms(2) by (cases ys) auto
  from assms(1) stop show "takeWhile P (xs @ ys) = xs" and "dropWhile P (xs @ ys) = ys"
    by (induction xs) auto
qed

lemma strip_prefix_append: "strip_prefix p (p @ r) = Some r"
  by (induction p) auto

lemma blanks1_run:
  assumes "w \<noteq> []" and "list_all re_space w" and "r = [] \<or> \<not> re_space (hd r)"
  shows "blanks1 (w @ r) = Some r"
  using assms run_then_stop [of re_space w r] by (simp add: blanks1_def)

lemma name_at_run:
  assumes "2 \<le> length n" and "re_letter (hd n)" and "list_all re_word (tl n)"
    and "r = [] \<or> \<not> re_word (hd r)"
  shows "name_at (n @ r) = Some (n, r)"
proof -
  from assms(1) obtain c n' where n: "n = c # n'" and n': "n' \<noteq> []"
    by (cases n) (auto simp: Suc_le_length_iff)
  with assms run_then_stop [of re_word n' r] show ?thesis
    by (simp add: name_at_def)
qed

lemma param_group_run:
  assumes "list_all re_param g"
  shows "param_group (''('' @ g @ '')'' @ r) = Some (g, r)"
  using assms run_then_stop [of re_param g "CHR '')'' # r"] class_facts(3)
  by (simp add: param_group_def)

lemma mutability_at_run:
  assumes "m = ''pure'' \<or> m = ''view''"
  shows "mutability_at (m @ r) = Some (m, r)"
  using assms by (auto simp: mutability_at_def)

lemma match_here_complete:
  assumes "pattern_word w1 n w2 i w3 m w4 w5 out"
  shows "match_here (''function'' @ w1 @ n @ w2 @ ''('' @ i @ '')'' @ w3 @ m @ w4 @ ''returns''
           @ w5 @ ''('' @ out @ '')'' @ rest) = Some (n, i, m, out)"
proof -
  let ?t9 = "rest"
  let ?t8 = "''('' @ out @ '')'' @ ?t9"
  let ?t7 = "w5 @ ?t8"
  let ?t6' = "''returns'' @ ?t7"
  let ?t6 = "w4 @ ?t6'"
  let ?t5 = "m @ ?t6"
  let ?t4 = "w3 @ ?t5"
  let ?t3' = "''('' @ i @ '')'' @ ?t4"
  let ?t3 = "w2 @ ?t3'"
  let ?t2 = "n @ ?t3"
  let ?t1 = "w1 @ ?t2"
  from assms have w1: "w1 \<noteq> []" "list_all re_space w1"
    and n: "2 \<le> length n" "re_letter (hd n)" "list_all re_word (tl n)"
    and w2: "list_all re_space w2" and i: "list_all re_param i"
    and w3: "w3 \<noteq> []" "list_all re_space w3" and m: "m = ''pure'' \<or> m = ''view''"
    and w4: "list_all re_space w4" and w5: "w5 \<noteq> []" "list_all re_space w5"
    and out: "list_all re_param out"
    by (simp_all add: pattern_word_def)
  from n(1) have nne: "n \<noteq> []" by auto
  have 1: "strip_prefix ''function'' (''function'' @ ?t1) = Some ?t1"
    by (rule strip_prefix_append)
  have 2: "blanks1 ?t1 = Some ?t2"
    using w1 n(2) nne by (intro blanks1_run) (simp_all add: letter_not_space)
  have "?t3 = [] \<or> \<not> re_word (hd ?t3)"
    using w2 class_facts(2) by (cases w2) (simp_all add: space_not_word)
  then have 3: "name_at ?t2 = Some (n, ?t3)"
    using n by (intro name_at_run)
  have d3: "dropWhile re_space ?t3 = ?t3'"
    using w2 class_facts(1) by (intro run_then_stop(2)) simp_all
  have 4: "param_group ?t3' = Some (i, ?t4)"
    using i by (rule param_group_run)
  have 5: "blanks1 ?t4 = Some ?t5"
    using w3 m class_facts(4,5) by (intro blanks1_run) auto
  have 6: "mutability_at ?t5 = Some (m, ?t6)"
    using m by (rule mutability_at_run)
  have d6: "dropWhile re_space ?t6 = ?t6'"
    using w4 class_facts(6) by (intro run_then_stop(2)) simp_all
  have 7: "strip_prefix ''returns'' ?t6' = Some ?t7"
    by (rule strip_prefix_append)
  have 8: "blanks1 ?t7 = Some ?t8"
    using w5 class_facts(1) by (intro blanks1_run) simp_all
  have 9: "param_group ?t8 = Some (out, ?t9)"
    using out by (rule param_group_run)
  show ?thesis
    unfolding match_here_def 1 option.case 2 3 prod.case d3 4 5 6 d6 7 8 9 ..
qed


lemma list_all_takeWhile: "list_all P (takeWhile P s)"
  by (induction s) auto

lemma strip_prefix_Some: "strip_prefix p s = Some r \<Longrightarrow> s = p @ r"
  by (induction p s rule: strip_prefix.induct) (auto split: if_splits)

lemma blanks1_Some:
  assumes "blanks1 s = Some r"
  shows "\<exists>w. s = w @ r \<and> w \<noteq> [] \<and> list_all re_space w"
proof -
  from assms have "takeWhile re_space s \<noteq> []" and "r = dropWhile re_space s"
    by (auto simp: blanks1_def split: if_splits)
  then have "s = takeWhile re_space s @ r \<and> takeWhile re_space s \<noteq> []
      \<and> list_all re_space (takeWhile re_space s)"
    by (simp add: list_all_takeWhile)
  then show ?thesis by blast
qed

lemma name_at_Some:
  assumes "name_at s = Some (n, r)"
  shows "s = n @ r \<and> 2 \<le> length n \<and> re_letter (hd n) \<and> list_all re_word (tl n)"
proof -
  from assms obtain c t where s: "s = c # t" and c: "re_letter c"
    and ne: "takeWhile re_word t \<noteq> []" and n: "n = c # takeWhile re_word t"
    and r: "r = dropWhile re_word t"
    by (auto simp: name_at_def split: list.splits if_splits)
  from ne have "1 \<le> length (takeWhile re_word t)" by (cases "takeWhile re_word t") auto
  with s c n r show ?thesis by (simp add: list_all_takeWhile)
qed

lemma param_group_Some:
  assumes "param_group s = Some (g, r)"
  shows "s = ''('' @ g @ '')'' @ r \<and> list_all re_param g"
proof -
  from assms obtain t where s: "s = CHR ''('' # t"
    and d: "dropWhile re_param t = CHR '')'' # r" and g: "g = takeWhile re_param t"
    by (auto simp: param_group_def split: list.splits if_splits)
  have "t = takeWhile re_param t @ dropWhile re_param t" by simp
  with s d g have "s = ''('' @ g @ '')'' @ r" by simp
  with g show ?thesis by (simp add: list_all_takeWhile)
qed

lemma mutability_at_Some:
  "mutability_at s = Some (m, r) \<Longrightarrow> s = m @ r \<and> (m = ''pure'' \<or> m = ''view'')"
  by (auto simp: mutability_at_def split: option.splits dest: strip_prefix_Some)

lemma dropWhile_split: "\<exists>w. s = w @ dropWhile P s \<and> list_all P w"
proof -
  have "s = takeWhile P s @ dropWhile P s \<and> list_all P (takeWhile P s)"
    by (simp add: list_all_takeWhile)
  then show ?thesis by blast
qed

lemma match_here_sound:
  assumes "match_here s = Some (n, i, m, out)"
  shows "\<exists>w1 w2 w3 w4 w5 rest.
           pattern_word w1 n w2 i w3 m w4 w5 out \<and>
           s = ''function'' @ w1 @ n @ w2 @ ''('' @ i @ '')'' @ w3 @ m @ w4 @ ''returns'' @ w5
                 @ ''('' @ out @ '')'' @ rest"
proof -
  from assms obtain s1 s2 s3 s4 s5 s6 s7 s8 s9 where
    1: "strip_prefix ''function'' s = Some s1" and 2: "blanks1 s1 = Some s2"
    and 3: "name_at s2 = Some (n, s3)" and 4: "param_group (dropWhile re_space s3) = Some (i, s4)"
    and 5: "blanks1 s4 = Some s5" and 6: "mutability_at s5 = Some (m, s6)"
    and 7: "strip_prefix ''returns'' (dropWhile re_space s6) = Some s7"
    and 8: "blanks1 s7 = Some s8" and 9: "param_group s8 = Some (out, s9)"
    unfolding match_here_def by (auto split: option.splits prod.splits)
  from 1 have a: "s = ''function'' @ s1" by (rule strip_prefix_Some)
  from 2 obtain w1 where b: "s1 = w1 @ s2" and w1: "w1 \<noteq> []" "list_all re_space w1"
    using blanks1_Some by blast
  from 3 have c: "s2 = n @ s3" and n: "2 \<le> length n" "re_letter (hd n)" "list_all re_word (tl n)"
    using name_at_Some by blast+
  obtain w2 where d: "s3 = w2 @ dropWhile re_space s3" and w2: "list_all re_space w2"
    using dropWhile_split by blast
  from 4 have e: "dropWhile re_space s3 = ''('' @ i @ '')'' @ s4" and pi: "list_all re_param i"
    using param_group_Some by blast+
  from 5 obtain w3 where f: "s4 = w3 @ s5" and w3: "w3 \<noteq> []" "list_all re_space w3"
    using blanks1_Some by blast
  from 6 have g: "s5 = m @ s6" and m: "m = ''pure'' \<or> m = ''view''"
    using mutability_at_Some by blast+
  obtain w4 where h: "s6 = w4 @ dropWhile re_space s6" and w4: "list_all re_space w4"
    using dropWhile_split by blast
  from 7 have k: "dropWhile re_space s6 = ''returns'' @ s7" by (rule strip_prefix_Some)
  from 8 obtain w5 where l: "s7 = w5 @ s8" and w5: "w5 \<noteq> []" "list_all re_space w5"
    using blanks1_Some by blast
  from 9 have q: "s8 = ''('' @ out @ '')'' @ s9" and po: "list_all re_param out"
    using param_group_Some by blast+
  have "s = ''function'' @ w1 @ n @ w2 @ ''('' @ i @ '')'' @ w3 @ m @ w4 @ ''returns'' @ w5
                 @ ''('' @ out @ '')'' @ s9"
    by (subst a, subst b, subst c, subst d, subst e, subst f, subst g, subst h, subst k,
        subst l, subst q) simp
  moreover have "pattern_word w1 n w2 i w3 m w4 w5 out"
    using w1 n w2 pi w3 m w4 w5 po by (simp add: pattern_word_def)
  ultimately show ?thesis by blast
qed

lemma match_here_iff:
  "match_here s = Some (n, i, m, out) \<longleftrightarrow>
   (\<exists>w1 w2 w3 w4 w5 rest.
      pattern_word w1 n w2 i w3 m w4 w5 out \<and>
      s = ''function'' @ w1 @ n @ w2 @ ''('' @ i @ '')'' @ w3 @ m @ w4 @ ''returns'' @ w5
            @ ''('' @ out @ '')'' @ rest)"
  using match_here_sound match_here_complete by blast

lemma FindStringSubmatch_Some:
  "FindStringSubmatch s = Some c \<Longrightarrow> \<exists>pre t. s = pre @ t \<and> match_here t = Some c"
proof (induction s)
  case Nil
  then show ?case by simp
next
  case (Cons x xs)
  show ?case
  proof (cases "match_here (x # xs)")
    case None
    with Cons.prems have "FindStringSubmatch xs = Some c" by simp
    from Cons.IH [OF this] obtain pre t where "xs = pre @ t" "match_here t = Some c" by blast
    then have "x # xs = (x # pre) @ t \<and> match_here t = Some c" by simp
    then show ?thesis by blast
  next
    case (Some m)
    with Cons.prems have "match_here (x # xs) = Some c" by simp
    then have "x # xs = [] @ (x # xs) \<and> match_here (x # xs) = Some c" by simp
    then show ?thesis by blast
  qed
qed

text \<open>\<open>FindStringSubmatch\<close> returns the match at the leftmost position that has one.\<close>

lemma FindStringSubmatch_leftmost:
  "FindStringSubmatch s = Some c \<longleftrightarrow>
   (\<exists>pre t. s = pre @ t \<and> match_here t = Some c \<and>
      (\<forall>k < length pre. match_here (drop k s) = None))"
proof (induction s)
  case Nil
  then show ?case by auto
next
  case (Cons x xs)
  show ?case
  proof (cases "match_here (x # xs)")
    case (Some m)
    have "(\<exists>pre t. x # xs = pre @ t \<and> match_here t = Some c \<and>
      (\<forall>k < length pre. match_here (drop k (x # xs)) = None)) \<longleftrightarrow> m = c"
    proof
      assume "\<exists>pre t. x # xs = pre @ t \<and> match_here t = Some c \<and>
        (\<forall>k < length pre. match_here (drop k (x # xs)) = None)"
      then obtain pre t where p: "x # xs = pre @ t" "match_here t = Some c"
        "\<forall>k < length pre. match_here (drop k (x # xs)) = None" by blast
      show "m = c"
      proof (cases pre)
        case Nil
        with p Some show ?thesis by simp
      next
        case (Cons a as)
        with p(3) have "match_here (drop 0 (x # xs)) = None" by auto
        with Some show ?thesis by simp
      qed
    next
      assume "m = c"
      with Some have "x # xs = [] @ (x # xs) \<and> match_here (x # xs) = Some c \<and>
        (\<forall>k < length ([]::string). match_here (drop k (x # xs)) = None)" by simp
      then show "\<exists>pre t. x # xs = pre @ t \<and> match_here t = Some c \<and>
        (\<forall>k < length pre. match_here (drop k (x # xs)) = None)" by blast
    qed
    with Some show ?thesis by auto
  next
    case None
    have "(\<exists>pre t. x # xs = pre @ t \<and> match_here t = Some c \<and>
      (\<forall>k < length pre. match_here (drop k (x # xs)) = None)) \<longleftrightarrow>
      (\<exists>pre t. xs = pre @ t \<and> match_here t = Some c \<and>
      (\<forall>k < length pre. match_here (drop k xs) = None))" (is "?L \<longleftrightarrow> ?R")
    proof
      assume ?L
      then obtain pre t where p: "x # xs = pre @ t" "match_here t = Some c"
        "\<forall>k < length pre. match_here (drop k (x # xs)) = None" by blast
      from p(1,2) None obtain as where pre: "pre = x # as" by (cases pre) auto
      with p(1) have "xs = as @ t" by simp
      moreover have "\<forall>k < length as. match_here (drop k xs) = None"
      proof (intro allI impI)
        fix k assume "k < length as"
        with p(3) pre have "match_here (drop (Suc k) (x # xs)) = None" by auto
        then show "match_here (drop k xs) = None" by simp
      qed
      ultimately show ?R using p(2) by blast
    next
      assume ?R
      then obtain pre t where p: "xs = pre @ t" "match_here t = Some c"
        "\<forall>k < length pre. match_here (drop k xs) = None" by blast
      have "\<forall>k < length (x # pre). match_here (drop k (x # xs)) = None"
      proof (intro allI impI)
        fix k assume k: "k < length (x # pre)"
        show "match_here (drop k (x # xs)) = None"
        proof (cases k)
          case 0
          with None show ?thesis by simp
        next
          case (Suc j)
          with k p(3) show ?thesis by simp
        qed
      qed
      with p(1,2) have "x # xs = (x # pre) @ t \<and> match_here t = Some c \<and>
        (\<forall>k < length (x # pre). match_here (drop k (x # xs)) = None)" by simp
      then show ?L by blast
    qed
    with None Cons.IH show ?thesis by simp
  qed
qed

subsection \<open>What every matching string contains\<close>

lemma FindStringSubmatch_shape:
  assumes "FindStringSubmatch s = Some (n, i, m, out)"
  shows "sublist ''function'' s \<and> sublist ''returns'' s
         \<and> 2 \<le> count_list s CHR ''('' \<and> 2 \<le> count_list s CHR '')''
         \<and> list_all re_param i \<and> list_all re_param out"
proof -
  from FindStringSubmatch_Some [OF assms] obtain pre t where
    s: "s = pre @ t" and t: "match_here t = Some (n, i, m, out)" by blast
  from match_here_sound [OF t] obtain w1 w2 w3 w4 w5 rest where
    pw: "pattern_word w1 n w2 i w3 m w4 w5 out" and
    sh: "t = ''function'' @ w1 @ n @ w2 @ ''('' @ i @ '')'' @ w3 @ m @ w4 @ ''returns'' @ w5
                 @ ''('' @ out @ '')'' @ rest"
    by blast
  from pw have cls: "list_all re_param i \<and> list_all re_param out"
    by (simp add: pattern_word_def)
  have "s = pre @ ''function'' @ (w1 @ n @ w2 @ ''('' @ i @ '')'' @ w3 @ m @ w4 @ ''returns'' @ w5
                 @ ''('' @ out @ '')'' @ rest)"
    using s sh by simp
  then have f: "sublist ''function'' s" unfolding sublist_def by blast
  have "s = (pre @ ''function'' @ w1 @ n @ w2 @ ''('' @ i @ '')'' @ w3 @ m @ w4) @ ''returns'' @ (w5
                 @ ''('' @ out @ '')'' @ rest)"
    using s sh by simp
  then have r: "sublist ''returns'' s" unfolding sublist_def by blast
  have "2 \<le> count_list s CHR ''(''" "2 \<le> count_list s CHR '')''"
    unfolding s sh by simp_all
  with f r cls show ?thesis by blast
qed

subsection \<open>Where the parameter loop stops\<close>

lemma upt_from: "[i..<i + Suc n] = i # [Suc i..<Suc i + n]"
  by (subst upt_conv_Cons) simp_all

text \<open>
  The two lists that \<open>ParseFunction\<close> hands to \<open>parseParameters\<close> consist of letters,
  digits, blanks and commas: they hold no byte from \<open>0x80\<close> on, which is the domain on
  which \<open>TrimSpace\<close> and \<open>Fields\<close> above are Go's functions.
\<close>

lemma re_param_ascii: "re_param c \<Longrightarrow> (of_char c :: nat) < 128"
  by (auto simp: re_param_def re_space_def lower_letters_def upper_letters_def digits_def)

lemma captures_ascii:
  assumes "FindStringSubmatch s = Some (n, i, m, out)"
  shows "list_all (\<lambda>c. (of_char c :: nat) < 128) i \<and> list_all (\<lambda>c. (of_char c :: nat) < 128) out"
  using FindStringSubmatch_shape [OF assms] re_param_ascii by (auto simp: list_all_iff)

lemma parseLoop_no_stop:
  assumes "find (stops E) (zip [i..<i + length ps] (map TrimSpace ps)) = None"
  shows "\<exists>args. parseLoop E i ps acc = Ok args"
  using assms
proof (induction ps arbitrary: i acc)
  case Nil
  then show ?case by simp
next
  case (Cons p ps)
  have z: "zip [i..<i + length (p # ps)] (map TrimSpace (p # ps))
           = (i, TrimSpace p) # zip [Suc i..<Suc i + length ps] (map TrimSpace ps)"
    using upt_from [of i "length ps"] by simp
  from Cons.prems have head: "\<not> stops E (i, TrimSpace p)"
    and rest: "find (stops E) (zip [Suc i..<Suc i + length ps] (map TrimSpace ps)) = None"
    unfolding z by (auto split: if_splits)
  show ?case
  proof (cases "TrimSpace p = []")
    case True
    from Cons.IH [OF rest, of acc] show ?thesis unfolding parseLoop_blank [OF True] .
  next
    case ne: False
    have ge: "1 \<le> length (Fields (TrimSpace p))" using ne by (rule Fields_TrimSpace)
    from head ne have le: "length (Fields (TrimSpace p)) \<le> 2" and lt: "i < 26"
      and "NewType E (Fields (TrimSpace p) ! 0) \<noteq> None"
      by (auto simp: stops_def)
    then obtain ty where ty: "NewType E (Fields (TrimSpace p) ! 0) = Some ty" by auto
    from Cons.IH [OF rest] show ?thesis unfolding parseLoop_next [OF ne ge le lt ty] .
  qed
qed

lemma parseLoop_stop:
  assumes "find (stops E) (zip [i..<i + length ps] (map TrimSpace ps)) = Some (k, e)"
  shows "parseLoop E i ps acc =
           (if 2 < length (Fields e) then Err (InvalidParameterFormat e)
            else if 26 \<le> k then Panic
            else Err (InvalidParameterType (Fields e ! 0)))"
  using assms
proof (induction ps arbitrary: i acc)
  case Nil
  then show ?case by simp
next
  case (Cons p ps)
  have z: "zip [i..<i + length (p # ps)] (map TrimSpace (p # ps))
           = (i, TrimSpace p) # zip [Suc i..<Suc i + length ps] (map TrimSpace ps)"
    using upt_from [of i "length ps"] by simp
  show ?case
  proof (cases "stops E (i, TrimSpace p)")
    case True
    with Cons.prems have ke: "k = i" "e = TrimSpace p" unfolding z by simp_all
    from True have ne: "TrimSpace p \<noteq> []" by (simp add: stops_def)
    have ge: "1 \<le> length (Fields (TrimSpace p))" using ne by (rule Fields_TrimSpace)
    show ?thesis
    proof (cases "2 < length (Fields (TrimSpace p))")
      case True
      with parseLoop_format [OF ne True] ke show ?thesis by simp
    next
      case False
      then have le: "length (Fields (TrimSpace p)) \<le> 2" by simp
      show ?thesis
      proof (cases "26 \<le> i")
        case True
        with parseLoop_panic [OF ne ge le True] False ke show ?thesis by simp
      next
        case nb: False
        then have lt: "i < 26" by simp
        from \<open>stops E (i, TrimSpace p)\<close> False nb
        have none: "NewType E (Fields (TrimSpace p) ! 0) = None" by (simp add: stops_def)
        with parseLoop_type [OF ne ge le lt none] False nb ke show ?thesis by simp
      qed
    qed
  next
    case head: False
    with Cons.prems
    have rest: "find (stops E) (zip [Suc i..<Suc i + length ps] (map TrimSpace ps)) = Some (k, e)"
      unfolding z by simp
    show ?thesis
    proof (cases "TrimSpace p = []")
      case True
      from Cons.IH [OF rest, of acc] show ?thesis unfolding parseLoop_blank [OF True] .
    next
      case ne: False
      have ge: "1 \<le> length (Fields (TrimSpace p))" using ne by (rule Fields_TrimSpace)
      from head ne have le: "length (Fields (TrimSpace p)) \<le> 2" and lt: "i < 26"
        and "NewType E (Fields (TrimSpace p) ! 0) \<noteq> None"
        by (auto simp: stops_def)
      then obtain ty where ty: "NewType E (Fields (TrimSpace p) ! 0) = Some ty" by auto
      from Cons.IH [OF rest] show ?thesis unfolding parseLoop_next [OF ne ge le lt ty] .
    qed
  qed
qed

lemma parseParameters_no_stop:
  "first_stop E l = None \<Longrightarrow> \<exists>args. parseParameters E l = Ok args"
  using parseLoop_no_stop [of E 0 "Split l CHR '',''" "[]"]
  by (simp add: first_stop_def entries_def parseParameters_def)

lemma parseParameters_stop:
  "first_stop E l = Some (k, e) \<Longrightarrow>
   parseParameters E l =
     (if 2 < length (Fields e) then Err (InvalidParameterFormat e)
      else if 26 \<le> k then Panic
      else Err (InvalidParameterType (Fields e ! 0)))"
  using parseLoop_stop [of E 0 "Split l CHR '',''" k e "[]"]
  by (simp add: first_stop_def entries_def parseParameters_def)

lemma parseParameters_type_error_iff:
  "parseParameters E l = Err (InvalidParameterType t) \<longleftrightarrow>
   (\<exists>k e. first_stop E l = Some (k, e) \<and> length (Fields e) \<le> 2 \<and> k < 26 \<and> t = Fields e ! 0)"
proof (cases "first_stop E l")
  case None
  with parseParameters_no_stop [OF None] show ?thesis by auto
next
  case (Some ke)
  obtain k e where ke: "ke = (k, e)" by (cases ke)
  from parseParameters_stop [of E l k e] Some ke show ?thesis by auto
qed

lemma parseParameters_Ok_iff:
  "(\<exists>args. parseParameters E l = Ok args) \<longleftrightarrow> first_stop E l = None"
proof (cases "first_stop E l")
  case None
  with parseParameters_no_stop [OF None] show ?thesis by auto
next
  case (Some ke)
  obtain k e where ke: "ke = (k, e)" by (cases ke)
  from parseParameters_stop [of E l k e] Some ke show ?thesis by auto
qed

lemma match_somewhere:
  "match_here t = Some c \<Longrightarrow> FindStringSubmatch (pre @ t) \<noteq> None"
proof (induction pre)
  case Nil
  then show ?case by (cases t) auto
next
  case (Cons x pre)
  then show ?case by (auto split: option.splits)
qed

lemma FindStringSubmatch_None_iff: "FindStringSubmatch s = None \<longleftrightarrow> \<not> has_pattern s"
proof
  assume none: "FindStringSubmatch s = None"
  show "\<not> has_pattern s"
  proof
    assume "has_pattern s"
    then obtain pre w1 n w2 i w3 m w4 w5 out rest where
      pw: "pattern_word w1 n w2 i w3 m w4 w5 out" and
      s: "s = pre @ ''function'' @ w1 @ n @ w2 @ ''('' @ i @ '')'' @ w3 @ m @ w4 @ ''returns'' @ w5
              @ ''('' @ out @ '')'' @ rest"
      unfolding has_pattern_def by blast
    from match_here_complete [OF pw, of rest] match_somewhere
    have "FindStringSubmatch s \<noteq> None" unfolding s by blast
    with none show False by simp
  qed
next
  assume no: "\<not> has_pattern s"
  show "FindStringSubmatch s = None"
  proof (cases "FindStringSubmatch s")
    case None
    then show ?thesis .
  next
    case (Some c)
    obtain n i m out where c: "c = (n, i, m, out)" by (cases c) auto
    from FindStringSubmatch_Some [OF Some] obtain pre t where
      s: "s = pre @ t" and t: "match_here t = Some (n, i, m, out)" using c by blast
    from match_here_sound [OF t] s have "has_pattern s"
      unfolding has_pattern_def by blast
    with no show ?thesis by simp
  qed
qed

lemma ParseFunction_signature_error_iff:
  "ParseFunction E s = Err ErrInvalidFunctionSignature \<longleftrightarrow> FindStringSubmatch s = None"
  by (auto simp: ParseFunction_def split: option.splits result.splits)

text \<open>When the loop stops below position 26 at an entry of at most two tokens, that
  entry holds the first type token of the list that is not recognised.\<close>

lemma first_stop_first:
  assumes "first_stop E l = Some (k, e)"
  shows "k < length (entries l) \<and> e = entries l ! k \<and> stops E (k, e)
         \<and> (\<forall>k' < k. \<not> stops E (k', entries l ! k'))"
proof -
  let ?es = "entries l"
  let ?xs = "zip [0..<length ?es] ?es"
  from assms obtain i where i: "i < length ?xs" and p: "stops E (?xs ! i)"
    and x: "(k, e) = ?xs ! i" and before: "\<forall>j < i. \<not> stops E (?xs ! j)"
    unfolding first_stop_def find_Some_iff by blast
  from i have il: "i < length ?es" by simp
  then have xi: "?xs ! i = (i, ?es ! i)" by simp
  with x have k: "k = i" and e: "e = ?es ! i" by simp_all
  have "\<not> stops E (k', ?es ! k')" if "k' < k" for k'
  proof -
    from that k il have "?xs ! k' = (k', ?es ! k')" by simp
    with before that k show ?thesis by metis
  qed
  with il k e p xi show ?thesis by simp
qed

lemma first_stop_unrecognised:
  assumes "first_stop E l = Some (k, e)" and "length (Fields e) \<le> 2" and "k < 26"
  shows "e = entries l ! k \<and> NewType E (Fields e ! 0) = None
         \<and> (\<forall>k' < k. entries l ! k' \<noteq> [] \<longrightarrow>
               NewType E (Fields (entries l ! k') ! 0) \<noteq> None)"
  using first_stop_first [OF assms(1)] assms(2,3) by (auto simp: stops_def)

lemma unbalanced_parsed:
  "ParseFunction example_env ''function addr(bytes32 namehash) view returns (address))''
   = Ok addr_method"
  by code_simp

text \<open>
  C6, as stated, fails in both halves. The pattern is not anchored, so text around a
  matching substring is ignored: the first signature below has two opening and three
  closing parentheses and parses. And an unrecognised type token is reported only if
  the loop reaches it below position 26: in the second signature the pattern matches, no
  entry has more than one token, the type token \<open>uint\<close> at position 26 of the inputs is
  not recognised, and \<open>ParseFunction\<close> panics instead of returning the type error.
\<close>

theorem ParseFunction_rejects_counterexample:
  "count_list ''function addr(bytes32 namehash) view returns (address))'' CHR ''('' = 2
   \<and> count_list ''function addr(bytes32 namehash) view returns (address))'' CHR '')'' = 3
   \<and> ParseFunction example_env ''function addr(bytes32 namehash) view returns (address))''
       = Ok addr_method
   \<and> ParseFunction example_env ''function addr(bytes32 namehash) view returns (address))''
       \<noteq> Err ErrInvalidFunctionSignature
   \<and> FindStringSubmatch (many_signature bools26_uint)
       = Some (''many'', bools26_uint, ''view'', ''bool'')
   \<and> list_all (\<lambda>e. length (Fields e) = 1) (entries bools26_uint)
   \<and> Fields (entries bools26_uint ! 26) = [''uint'']
   \<and> NewType example_env ''uint'' = None
   \<and> ParseFunction example_env (many_signature bools26_uint) = Panic
   \<and> ParseFunction example_env (many_signature bools26_uint)
       \<noteq> Err (FailedInput (InvalidParameterType ''uint''))"
  by code_simp

text \<open>
  C6, amended. Parsing fails with \<open>ErrInvalidFunctionSignature\<close> exactly when no substring
  of the string is a word of the pattern; in particular it fails for every string that
  lacks the \<open>function\<close> keyword or the \<open>returns\<close> keyword, or has fewer than two opening
  or fewer than two closing parentheses. When the pattern matches, parsing fails with
  the invalid-type error for the inputs exactly when the entry at which the loop stops
  on the inputs list has at most two tokens and a position below 26, and the error
  carries the type token of that entry, which is the first unrecognised one; it fails
  with the invalid-type error for the outputs exactly when the loop does not stop on the
  inputs list and the same holds of the outputs list.
\<close>

theorem ParseFunction_rejects:
  "(ParseFunction E s = Err ErrInvalidFunctionSignature \<longleftrightarrow> \<not> has_pattern s)
   \<and> (\<not> sublist ''function'' s \<or> \<not> sublist ''returns'' s \<or> count_list s CHR ''('' < 2
        \<or> count_list s CHR '')'' < 2
        \<longrightarrow> ParseFunction E s = Err ErrInvalidFunctionSignature)
   \<and> (FindStringSubmatch s = Some (functionName, input, mutability, output) \<longrightarrow>
        (\<forall>t. ParseFunction E s = Err (FailedInput (InvalidParameterType t)) \<longleftrightarrow>
               (\<exists>k e. first_stop E input = Some (k, e) \<and> length (Fields e) \<le> 2 \<and> k < 26
                      \<and> t = Fields e ! 0))
      \<and> (\<forall>t. ParseFunction E s = Err (FailedOutput (InvalidParameterType t)) \<longleftrightarrow>
               first_stop E input = None \<and>
               (\<exists>k e. first_stop E output = Some (k, e) \<and> length (Fields e) \<le> 2 \<and> k < 26
                      \<and> t = Fields e ! 0)))"
proof (intro conjI impI allI)
  show "ParseFunction E s = Err ErrInvalidFunctionSignature \<longleftrightarrow> \<not> has_pattern s"
    by (simp add: ParseFunction_signature_error_iff FindStringSubmatch_None_iff)
next
  assume miss: "\<not> sublist ''function'' s \<or> \<not> sublist ''returns'' s
    \<or> count_list s CHR ''('' < 2 \<or> count_list s CHR '')'' < 2"
  have "FindStringSubmatch s = None"
  proof (cases "FindStringSubmatch s")
    case None
    then show ?thesis .
  next
    case (Some c)
    obtain n i m out where "c = (n, i, m, out)" by (cases c) auto
    with Some FindStringSubmatch_shape [of s n i m out] miss show ?thesis by auto
  qed
  then show "ParseFunction E s = Err ErrInvalidFunctionSignature"
    by (simp add: ParseFunction_def)
next
  fix t
  assume m: "FindStringSubmatch s = Some (functionName, input, mutability, output)"
  have "ParseFunction E s = Err (FailedInput (InvalidParameterType t)) \<longleftrightarrow>
        parseParameters E input = Err (InvalidParameterType t)"
    using m by (auto simp: ParseFunction_def split: result.splits)
  then show "ParseFunction E s = Err (FailedInput (InvalidParameterType t)) \<longleftrightarrow>
               (\<exists>k e. first_stop E input = Some (k, e) \<and> length (Fields e) \<le> 2 \<and> k < 26
                      \<and> t = Fields e ! 0)"
    by (simp only: parseParameters_type_error_iff)
next
  fix t
  assume m: "FindStringSubmatch s = Some (functionName, input, mutability, output)"
  have "ParseFunction E s = Err (FailedOutput (InvalidParameterType t)) \<longleftrightarrow>
        (\<exists>args. parseParameters E input = Ok args) \<and>
        parseParameters E output = Err (InvalidParameterType t)"
    using m by (auto simp: ParseFunction_def split: result.splits)
  then show "ParseFunction E s = Err (FailedOutput (InvalidParameterType t)) \<longleftrightarrow>
               first_stop E input = None \<and>
               (\<exists>k e. first_stop E output = Some (k, e) \<and> length (Fields e) \<le> 2 \<and> k < 26
                      \<and> t = Fields e ! 0)"
    by (simp only: parseParameters_type_error_iff parseParameters_Ok_iff)
qed

theorem ParseFunction_rejects_witness:
  "ParseFunction example_env ''addr(bytes32 namehash) view returns (address)''
     = Err ErrInvalidFunctionSignature
   \<and> \<not> has_pattern ''function addr((bytes32) view returns (address)''
   \<and> ParseFunction example_env ''function addr(bytes32 namehash, uint key) view returns (address)''
     = Err (FailedInput (InvalidParameterType ''uint''))
   \<and> ParseFunction example_env ''function addr(bytes32 namehash) view returns (uint, foo)''
     = Err (FailedOutput (InvalidParameterType ''uint''))"
proof -
  let ?s = "''function addr(bytes32 namehash, uint key) view returns (address)''"
  let ?o = "''function addr(bytes32 namehash) view returns (uint, foo)''"
  have "\<not> sublist ''function'' ''addr(bytes32 namehash) view returns (address)''"
    by code_simp
  with ParseFunction_rejects [of example_env "''addr(bytes32 namehash) view returns (address)''"]
  have first: "ParseFunction example_env ''addr(bytes32 namehash) view returns (address)''
     = Err ErrInvalidFunctionSignature"
    by blast
  have "ParseFunction example_env ''function addr((bytes32) view returns (address)''
     = Err ErrInvalidFunctionSignature"
    by code_simp
  with ParseFunction_rejects [of example_env "''function addr((bytes32) view returns (address)''"]
  have second: "\<not> has_pattern ''function addr((bytes32) view returns (address)''"
    by blast
  have ms: "FindStringSubmatch ?s
     = Some (''addr'', ''bytes32 namehash, uint key'', ''view'', ''address'')"
    by code_simp
  have stop_s: "first_stop example_env ''bytes32 namehash, uint key'' = Some (1, ''uint key'')"
    "length (Fields ''uint key'') \<le> 2" "(1::nat) < 26" "''uint'' = Fields ''uint key'' ! 0"
    by code_simp+
  from ParseFunction_rejects [of example_env ?s "''addr''" "''bytes32 namehash, uint key''"
      "''view''" "''address''"] ms stop_s
  have third: "ParseFunction example_env ?s = Err (FailedInput (InvalidParameterType ''uint''))"
    by blast
  have mo: "FindStringSubmatch ?o
     = Some (''addr'', ''bytes32 namehash'', ''view'', ''uint, foo'')"
    by code_simp
  have stop_o: "first_stop example_env ''bytes32 namehash'' = None"
    "first_stop example_env ''uint, foo'' = Some (0, ''uint'')"
    "length (Fields ''uint'') \<le> 2" "(0::nat) < 26" "''uint'' = Fields ''uint'' ! 0"
    by code_simp+
  from ParseFunction_rejects [of example_env ?o "''addr''" "''bytes32 namehash''"
      "''view''" "''uint, foo''"] mo stop_o
  have fourth: "ParseFunction example_env ?o = Err (FailedOutput (InvalidParameterType ''uint''))"
    by blast
  from first second third fourth show ?thesis by simp
qed

section \<open>Registration\<close>

lemma addr_method_parsed: "ParseFunction example_env addr_signature = Ok addr_method"
  by code_simp

lemma node_method_parsed: "ParseFunction example_env node_signature = Ok node_method"
  by code_simp

lemma addr_method_selector: "Uint32 (ID addr_method) = Some 0x3b3b57de"
  by code_simp

lemma node_method_selector: "Uint32 (ID node_method) = Uint32 (ID addr_method)"
  by code_simp

lemma addr_resolver_registered:
  "Handle example_env (NewCCIPReadResolver []) addr_signature zeroHandler = Ok addr_resolver"
  by (simp add: Handle_def addr_method_parsed addr_method_selector NewCCIPReadResolver_def
      addr_resolver_def)

text \<open>
  C2, as stated, fails: \<open>Handle\<close> has no duplicate check. Two signatures with the canonical
  signature \<open>addr(bytes32)\<close> are registered in turn; the second call returns no error, and
  the table then holds the second descriptor and the second handler under \<open>0x3b3b57de\<close>.
\<close>

theorem Handle_replaces_counterexample:
  "(case Handle example_env (NewCCIPReadResolver []) addr_signature zeroHandler of
      Ok r1 \<Rightarrow>
        (case Handle example_env r1 node_signature oneHandler of
           Ok r2 \<Rightarrow>
             (case handlers r2 0x3b3b57de of
                Some registered \<Rightarrow>
                  StateMutability (regMethod registered) = ''pure''
                  \<and> map ArgName (Inputs (regMethod registered)) = [''node'']
                  \<and> handler registered \<lparr>Method = regMethod registered, Input = []\<rparr>
                      = Inr [word_of 1]
                  \<and> zeroHandler \<lparr>Method = regMethod registered, Input = []\<rparr> = Inr [word_of 0]
                  \<and> word_of 0 \<noteq> word_of 1
              | None \<Rightarrow> False)
         | Err e \<Rightarrow> False
         | Panic \<Rightarrow> False)
    | Err e \<Rightarrow> False
    | Panic \<Rightarrow> False)"
  by code_simp

text \<open>
  C2, amended. When a signature is registered and a second signature that parses to the
  same selector is registered afterwards, the second call succeeds and stores its own
  descriptor and handler under that selector in place of the first pair; every other
  entry of the table is unchanged. The last registration wins.
\<close>

theorem Handle_replaces:
  assumes "Handle E r sig1 h1 = Ok r1" and "ParseFunction E sig1 = Ok m1"
    and "ParseFunction E sig2 = Ok m2" and "Uint32 (ID m2) = Uint32 (ID m1)"
  shows "\<exists>sel r2. Uint32 (ID m1) = Some sel
           \<and> handlers r1 sel = Some \<lparr>regMethod = m1, handler = h1\<rparr>
           \<and> Handle E r1 sig2 h2 = Ok r2
           \<and> handlers r2 sel = Some \<lparr>regMethod = m2, handler = h2\<rparr>
           \<and> (\<forall>k. k \<noteq> sel \<longrightarrow> handlers r2 k = handlers r1 k)"
proof -
  from assms(1,2) obtain sel where sel: "Uint32 (ID m1) = Some sel"
    and r1: "r1 = r\<lparr>handlers := (handlers r)(sel \<mapsto> \<lparr>regMethod = m1, handler = h1\<rparr>)\<rparr>"
    by (auto simp: Handle_def split: option.splits)
  let ?r2 = "r1\<lparr>handlers := (handlers r1)(sel \<mapsto> \<lparr>regMethod = m2, handler = h2\<rparr>)\<rparr>"
  from assms(3,4) sel have "Handle E r1 sig2 h2 = Ok ?r2" by (simp add: Handle_def)
  with sel r1 show ?thesis by auto
qed

theorem Handle_replaces_witness:
  "\<exists>sel r2. Uint32 (ID addr_method) = Some sel
     \<and> handlers addr_resolver sel = Some \<lparr>regMethod = addr_method, handler = zeroHandler\<rparr>
     \<and> Handle example_env addr_resolver node_signature oneHandler = Ok r2
     \<and> handlers r2 sel = Some \<lparr>regMethod = node_method, handler = oneHandler\<rparr>
     \<and> (\<forall>k. k \<noteq> sel \<longrightarrow> handlers r2 k = handlers addr_resolver k)"
  using Handle_replaces [OF addr_resolver_registered addr_method_parsed node_method_parsed
      node_method_selector] .

section \<open>The request pipeline\<close>

subsection \<open>Sender validation and the data field\<close>

text \<open>
  C5, as stated, fails: \<open>ServeHTTP\<close> validates the sender before it decodes the data
  field. The data field \<open>0x12\<close> decodes to one byte, the validator rejects every sender,
  and the response is 401, after a call of the validator.
\<close>

theorem validation_precedes_decoding_counterexample:
  "example_Unmarshal short_call_from
     = Some \<lparr>Data = ''0x12'', Sender = ''0x2222222222222222222222222222222222222222''\<rparr>
   \<and> example_Decode ''0x12'' = Some [0x12]
   \<and> ServeHTTP example_env (NewCCIPReadResolver [GatewayValidator rejectAll])
       (post short_call_from)
     = (Some (http_Error ''unauthorized sender'' 401),
        [SenderValidatorCalled (replicate 20 0x22)])"
  by code_simp

text \<open>
  C5, amended. Sender validation comes before the hex decoding and the length check of
  the data field: for every \<open>POST\<close> request with a readable body and a parseable envelope
  whose data field does not decode or decodes to fewer than four bytes, the response is
  401 when a configured validator rejects the supplied sender, and 400 otherwise; the
  validator is called whenever one is configured and a sender is supplied.
\<close>

theorem validation_precedes_decoding:
  assumes "HttpMethod req = ''POST''" and "Body req = Some body"
    and "Unmarshal E body = Some ccipReq" and "malformedData E ccipReq"
  shows "map_option Status (fst (ServeHTTP E r req))
           = Some (if senderRejected E r ccipReq then 401 else 400)
       \<and> snd (ServeHTTP E r req)
           = (if senderValidator r \<noteq> None \<and> Sender ccipReq \<noteq> []
              then [SenderValidatorCalled (HexToAddress E (Sender ccipReq))] else [])"
  using assms
  by (auto simp: ServeHTTP_def validateSender_def senderRejected_def malformedData_def
      http_Error_def Let_def split: option.splits)

theorem validation_precedes_decoding_witness:
  "map_option Status
     (fst (ServeHTTP example_env (NewCCIPReadResolver [GatewayValidator rejectAll])
             (post short_call_from))) = Some 401
   \<and> map_option Status
       (fst (ServeHTTP example_env (NewCCIPReadResolver []) (post short_call_from))) = Some 400"
proof -
  let ?ccipReq = "\<lparr>Data = ''0x12'', Sender = ''0x2222222222222222222222222222222222222222''\<rparr>"
  have m: "HttpMethod (post short_call_from) = ''POST''"
    and b: "Body (post short_call_from) = Some short_call_from"
    by (simp_all add: post_def)
  have u: "Unmarshal example_env short_call_from = Some ?ccipReq" by code_simp
  have d: "malformedData example_env ?ccipReq" by code_simp
  have rej: "senderRejected example_env (NewCCIPReadResolver [GatewayValidator rejectAll]) ?ccipReq"
    by code_simp
  have acc: "\<not> senderRejected example_env (NewCCIPReadResolver []) ?ccipReq"
    by code_simp
  from validation_precedes_decoding [OF m b u d,
      of "NewCCIPReadResolver [GatewayValidator rejectAll]"] rej
  have "map_option Status
     (fst (ServeHTTP example_env (NewCCIPReadResolver [GatewayValidator rejectAll])
             (post short_call_from))) = Some 401"
    by simp
  moreover from validation_precedes_decoding [OF m b u d, of "NewCCIPReadResolver []"] acc
  have "map_option Status
       (fst (ServeHTTP example_env (NewCCIPReadResolver []) (post short_call_from))) = Some 400"
    by simp
  ultimately show ?thesis by simp
qed

text \<open>
  C9, as stated, fails on a request whose sender is rejected: the data field \<open>zz\<close> is not
  hexadecimal text, and the response is 401, not 400.
\<close>

theorem malformed_data_400_counterexample:
  "example_Unmarshal bad_hex_call_from
     = Some \<lparr>Data = ''zz'', Sender = ''0x1111111111111111111111111111111111111111''\<rparr>
   \<and> example_Decode ''zz'' = None
   \<and> map_option Status
       (fst (ServeHTTP example_env (NewCCIPReadResolver [GatewayValidator rejectAll])
               (post bad_hex_call_from))) = Some 401"
  by code_simp

text \<open>
  C9, amended. For every \<open>POST\<close> request with a readable body and a parseable envelope
  that sender validation does not reject, and whose data field does not decode or
  decodes to fewer than four bytes, the response has status 400, the request neither
  reads the handler table nor calls a handler, and the outcome is the same whatever
  the table holds.
\<close>

theorem malformed_data_400:
  assumes "HttpMethod req = ''POST''" and "Body req = Some body"
    and "Unmarshal E body = Some ccipReq" and "malformedData E ccipReq"
    and "\<not> senderRejected E r ccipReq"
  shows "map_option Status (fst (ServeHTTP E r req)) = Some 400
       \<and> (\<forall>sel. HandlersRead sel \<notin> set (snd (ServeHTTP E r req))
                \<and> HandlerCalled sel \<notin> set (snd (ServeHTTP E r req)))
       \<and> (\<forall>H. ServeHTTP E (r\<lparr>handlers := H\<rparr>) req = ServeHTTP E r req)"
  using assms
  by (auto simp: ServeHTTP_def validateSender_def senderRejected_def malformedData_def
      http_Error_def Let_def split: option.splits)

theorem malformed_data_400_witness:
  "map_option Status (fst (ServeHTTP example_env addr_resolver (post short_call))) = Some 400
   \<and> (\<forall>sel. HandlersRead sel \<notin> set (snd (ServeHTTP example_env addr_resolver (post short_call)))
          \<and> HandlerCalled sel \<notin> set (snd (ServeHTTP example_env addr_resolver (post short_call))))
   \<and> (\<forall>H. ServeHTTP example_env (addr_resolver\<lparr>handlers := H\<rparr>) (post short_call)
          = ServeHTTP example_env addr_resolver (post short_call))"
proof -
  let ?ccipReq = "\<lparr>Data = ''0x12'', Sender = []\<rparr>"
  have m: "HttpMethod (post short_call) = ''POST''"
    and b: "Body (post short_call) = Some short_call"
    by (simp_all add: post_def)
  have u: "Unmarshal example_env short_call = Some ?ccipReq" by code_simp
  have d: "malformedData example_env ?ccipReq" by code_simp
  have acc: "\<not> senderRejected example_env addr_resolver ?ccipReq"
    by (simp add: senderRejected_def addr_resolver_def)
  from malformed_data_400 [OF m b u d acc] show ?thesis .
qed

subsection \<open>The output encoder\<close>

lemma validateSender_ignores_outputEncoder:
  "validateSender E (r\<lparr>outputEncoder := e\<rparr>) ccipReq = validateSender E r ccipReq"
  by (simp add: validateSender_def)

lemma dispatch_ignores_outputEncoder:
  "dispatch E (r\<lparr>outputEncoder := e\<rparr>) data t1 = dispatch E r data t1"
  by (simp add: dispatch_def cong: option.case_cong)

text \<open>No request depends on the configured output encoder: \<open>ServeHTTP\<close> never reads the
  field.\<close>

lemma ServeHTTP_ignores_outputEncoder:
  "ServeHTTP E (r\<lparr>outputEncoder := e\<rparr>) req = ServeHTTP E r req"
  by (simp add: ServeHTTP_def validateSender_ignores_outputEncoder
      dispatch_ignores_outputEncoder split: option.splits prod.splits)

text \<open>
  C1 at a failing input. The resolver is built with an output encoder that returns the
  single byte \<open>0xaa\<close>, and a handler for \<open>addr(bytes32)\<close> that returns the word 1. The
  response to the README's call carries the default encoding of the handler's output,
  not the encoder's byte.
\<close>

theorem output_encoder_unused:
  \<open>(case Handle example_env (NewCCIPReadResolver [OutputEncoding (\<lambda>outputs. Some [0xAA])])
            addr_signature oneHandler of
      Ok r \<Rightarrow>
        (case outputEncoder r of
           Some encoder \<Rightarrow> encoder [word_of 1] = Some [0xAA]
         | None \<Rightarrow> False)
        \<and> fst (ServeHTTP example_env r (post addr_call))
            = Some \<lparr>Status = 200, ContentType = ''application/json'',
                    Content = ''{"data":"0x0000000000000000000000000000000000000000000000000000000000000001"}''\<rparr>
        \<and> example_Marshal (example_Encode [0xAA]) = Some ''{"data":"0xaa"}''
    | Err e \<Rightarrow> False
    | Panic \<Rightarrow> False)\<close>
  by code_simp

subsection \<open>The gateway allow-list\<close>

text \<open>The validator that \<open>Gateways\<close> installs returns \<open>nil\<close> for every sender, listed or
  not.\<close>

lemma gatewaysValidator_accepts: "gatewaysValidator gateways sender = None"
  by (induction gateways) auto

lemma Gateways_never_unauthorized:
  "map_option Status (fst (ServeHTTP E (NewCCIPReadResolver [Gateways gateways]) req))
     \<noteq> Some 401"
  by (auto simp: ServeHTTP_def validateSender_def dispatch_def NewCCIPReadResolver_def
      Gateways_def gatewaysValidator_accepts http_Error_def Let_def
      split: option.splits sum.splits)

text \<open>
  C3 at a failing input. The allow-list holds the address \<open>0x11...11\<close>; the request
  carries the sender \<open>0x22...22\<close>. The validator is called with that sender, and the
  request goes on to the handler and is answered with status 200.
\<close>

theorem allow_list_accepts_stranger:
  "(case Handle example_env (NewCCIPReadResolver [Gateways [replicate 20 0x11]])
            addr_signature zeroHandler of
      Ok r \<Rightarrow>
        example_HexToAddress ''0x2222222222222222222222222222222222222222'' = replicate 20 0x22
        \<and> replicate 20 0x22 \<noteq> (replicate 20 0x11 :: address)
        \<and> map_option Status (fst (ServeHTTP example_env r (post addr_call_from))) = Some 200
        \<and> snd (ServeHTTP example_env r (post addr_call_from))
            = [SenderValidatorCalled (replicate 20 0x22), HandlersRead 0x3b3b57de,
               HandlerCalled 0x3b3b57de]
    | Err e \<Rightarrow> False
    | Panic \<Rightarrow> False)"
  by code_simp

end
